theory Spec2Isabelle
  imports Complex_Main
begin

section \<open>JavaScript values\<close>

text \<open>
  The values the scripts handle come out of \<^verbatim>\<open>JSON.parse\<close> or out of the
  command line: primitives, and references to objects that live in a store.
  Strings are taken as ASCII character lists. A number is a real (rounding of
  doubles is left out), with \<^verbatim>\<open>NaN\<close> as a value of its own.
\<close>

datatype js_value =
    JUndefined
  | JNull
  | JBool bool
  | JNum real
  | JNaN
  | JStr string
  | JRef nat

text \<open>\<^verbatim>\<open>if (v)\<close>, \<^verbatim>\<open>!v\<close>, \<^verbatim>\<open>v ? a : b\<close>: the falsy values are
  undefined, null, false, 0, NaN and the empty string; every object is truthy.\<close>

fun truthy :: "js_value \<Rightarrow> bool" where
  "truthy JUndefined = False"
| "truthy JNull = False"
| "truthy (JBool b) = b"
| "truthy (JNum n) = (n \<noteq> 0)"
| "truthy JNaN = False"
| "truthy (JStr s) = (s \<noteq> [])"
| "truthy (JRef a) = True"

text \<open>\<^verbatim>\<open>v ?? null\<close>: only undefined and null are replaced.\<close>

fun nullish_to_null :: "js_value \<Rightarrow> js_value" where
  "nullish_to_null JUndefined = JNull"
| "nullish_to_null JNull = JNull"
| "nullish_to_null v = v"

text \<open>Property lookup \<^verbatim>\<open>obj.key\<close> on a plain object, whose own properties are
  kept in enumeration order; a missing property reads as undefined.\<close>

type_synonym js_props = "(string \<times> js_value) list"

definition get_prop :: "js_props \<Rightarrow> string \<Rightarrow> js_value" where
  "get_prop ps k = (case map_of ps k of None \<Rightarrow> JUndefined | Some v \<Rightarrow> v)"

subsection \<open>Strings\<close>

definition is_digit :: "char \<Rightarrow> bool" where
  "is_digit c = (c \<in> set ''0123456789'')"

definition digit_char :: "nat \<Rightarrow> char" where
  "digit_char d = ''0123456789'' ! d"

text \<open>Decimal text of a natural number, as a template literal prints it.\<close>

fun dec :: "nat \<Rightarrow> string" where
  "dec n = (if n < 10 then [digit_char n] else dec (n div 10) @ [digit_char (n mod 10)])"

declare dec.simps [simp del]

text \<open>\<^verbatim>\<open>String(n).padStart(2, '0')\<close>\<close>

definition padStart2 :: "string \<Rightarrow> string" where
  "padStart2 s = replicate (2 - length s) CHR ''0'' @ s"

text \<open>\<^verbatim>\<open>s.toLowerCase()\<close> on ASCII text.\<close>

definition lower_char :: "char \<Rightarrow> char" where
  "lower_char c =
     (case map_of (zip ''ABCDEFGHIJKLMNOPQRSTUVWXYZ'' ''abcdefghijklmnopqrstuvwxyz'') c of
        None \<Rightarrow> c
      | Some l \<Rightarrow> l)"

definition toLowerCase :: "string \<Rightarrow> string" where
  "toLowerCase s = map lower_char s"

text \<open>\<^verbatim>\<open>s.includes(needle)\<close>\<close>

fun str_includes :: "string \<Rightarrow> string \<Rightarrow> bool" where
  "str_includes [] needle = (needle = [])"
| "str_includes (c # cs) needle =
     (take (length needle) (c # cs) = needle \<or> str_includes cs needle)"

section \<open>One-shot fetch script: date arguments\<close>

text \<open>
  \<^verbatim>\<open>parseArgs\<close> leaves an option absent, sets it to \<^verbatim>\<open>true\<close> when the flag has
  no value, or to the text that follows it.
\<close>

datatype cli_arg = Absent | Flag | Value string

record js_date =
  fullYear :: nat
  month0 :: nat
  dayOfMonth :: nat

datatype date_error =
    InvalidDateFormat string
  | NotAFunction

definition formatDate :: "js_date \<Rightarrow> string" where
  "formatDate inputDate =
     dec (fullYear inputDate) @ padStart2 (dec (month0 inputDate + 1))
       @ padStart2 (dec (dayOfMonth inputDate))"

text \<open>
  \<^verbatim>\<open>
  function normalizeDateInput(raw, fallbackDate = DATE_DEFAULT) {
    if (!raw) return formatDate(fallbackDate);
    const cleaned = raw.replace(/-/g, '');
    if (!/^\d{8}$/.test(cleaned))
      throw new Error(`Invalid date format: ${raw} (expected YYYY-MM-DD or YYYYMMDD)`);
    return cleaned;
  }
  \<close>
  A flag without a value is the boolean \<^verbatim>\<open>true\<close>, which has no \<^verbatim>\<open>replace\<close>.
\<close>

definition normalizeDateInput :: "cli_arg \<Rightarrow> js_date \<Rightarrow> date_error + string" where
  "normalizeDateInput raw fallbackDate =
     (case raw of
        Absent \<Rightarrow> Inr (formatDate fallbackDate)
      | Flag \<Rightarrow> Inl NotAFunction
      | Value s \<Rightarrow>
          if s = [] then Inr (formatDate fallbackDate)
          else let cleaned = filter (\<lambda>c. c \<noteq> CHR ''-'') s in
            if \<not> (length cleaned = 8 \<and> list_all is_digit cleaned)
            then Inl (InvalidDateFormat s)
            else Inr cleaned)"

section \<open>Upsert store\<close>

text \<open>
  The table \<^verbatim>\<open>transactions\<close> of \<^verbatim>\<open>ensureSchema\<close>: twenty columns that the
  insert statement binds, and the two timestamps. A column holds the value that
  was bound to it (the type affinity of the database is not modelled, so the
  results below are stated for reference numbers that are strings). The column
  \<^verbatim>\<open>number\<close> is \<open>number_col\<close> here. A timestamp is a number of clock ticks.
\<close>

type_synonym timestamp = nat

record transaction_row =
  reff_number :: js_value
  number_col :: js_value
  is_transfer_to_rek :: js_value
  transfer_amount :: js_value
  transfer_amount_number :: js_value
  fee_amount :: js_value
  fee_amount_number :: js_value
  auth_amount :: js_value
  auth_amount_number :: js_value
  percentage_fee_amount :: js_value
  percentage_fee_amount_number :: js_value
  issuer_name :: js_value
  customer_name :: js_value
  mpan :: js_value
  tid :: js_value
  cpan :: js_value
  auth_date_time :: js_value
  time_data_change :: js_value
  settle_date :: js_value
  raw_json :: js_value
  created_at :: timestamp
  updated_at :: timestamp

type_synonym transactions_table = "transaction_row list"

text \<open>
  The built-in functions the mapping calls are parameters: \<^verbatim>\<open>Number(value)\<close>
  and \<^verbatim>\<open>JSON.stringify(detail)\<close>.
\<close>

record js_builtins =
  Number_of :: "js_value \<Rightarrow> js_value"
  JSON_stringify :: "js_props \<Rightarrow> js_value"

text \<open>
  \<^verbatim>\<open>
  const toNumber = (value) =>
    value === null || value === undefined || value === '' ? null : Number(value);
  const booleanToInt = (value) => (value ? 1 : 0);
  \<close>
\<close>

definition toNumber :: "js_builtins \<Rightarrow> js_value \<Rightarrow> js_value" where
  "toNumber B v = (if v = JNull \<or> v = JUndefined \<or> v = JStr [] then JNull else Number_of B v)"

definition booleanToInt :: "js_value \<Rightarrow> js_value" where
  "booleanToInt v = (if truthy v then JNum 1 else JNum 0)"

text \<open>\<^verbatim>\<open>mapDetailToColumns\<close> of the monitor script: the twenty parameters, in the
  order of the column list of the statement.\<close>

definition mapDetailToColumns :: "js_builtins \<Rightarrow> js_props \<Rightarrow> js_value list" where
  "mapDetailToColumns B detail =
    [ get_prop detail ''reffNumber'',
      nullish_to_null (get_prop detail ''number''),
      booleanToInt (get_prop detail ''isTransferToRek''),
      nullish_to_null (get_prop detail ''transferAmount''),
      toNumber B (get_prop detail ''transferAmountNumber''),
      nullish_to_null (get_prop detail ''feeAmount''),
      toNumber B (get_prop detail ''feeAmountNumber''),
      nullish_to_null (get_prop detail ''authAmount''),
      toNumber B (get_prop detail ''authAmountNumber''),
      nullish_to_null (get_prop detail ''percentageFeeAmount''),
      toNumber B (get_prop detail ''percentageFeeAmountNumber''),
      nullish_to_null (get_prop detail ''issuerName''),
      nullish_to_null (get_prop detail ''customerName''),
      nullish_to_null (get_prop detail ''mpan''),
      nullish_to_null (get_prop detail ''tid''),
      nullish_to_null (get_prop detail ''cpan''),
      nullish_to_null (get_prop detail ''authDateTime''),
      nullish_to_null (get_prop detail ''timeDataChange''),
      nullish_to_null (get_prop detail ''settleDate''),
      JSON_stringify B detail ]"

text \<open>\<^verbatim>\<open>mapDetailToParams\<close> of the worker: the same list, with the flag written
  as \<^verbatim>\<open>detail.isTransferToRek ? 1 : 0\<close>.\<close>

definition mapDetailToParams :: "js_builtins \<Rightarrow> js_props \<Rightarrow> js_value list" where
  "mapDetailToParams B detail =
    [ get_prop detail ''reffNumber'',
      nullish_to_null (get_prop detail ''number''),
      (if truthy (get_prop detail ''isTransferToRek'') then JNum 1 else JNum 0),
      nullish_to_null (get_prop detail ''transferAmount''),
      toNumber B (get_prop detail ''transferAmountNumber''),
      nullish_to_null (get_prop detail ''feeAmount''),
      toNumber B (get_prop detail ''feeAmountNumber''),
      nullish_to_null (get_prop detail ''authAmount''),
      toNumber B (get_prop detail ''authAmountNumber''),
      nullish_to_null (get_prop detail ''percentageFeeAmount''),
      toNumber B (get_prop detail ''percentageFeeAmountNumber''),
      nullish_to_null (get_prop detail ''issuerName''),
      nullish_to_null (get_prop detail ''customerName''),
      nullish_to_null (get_prop detail ''mpan''),
      nullish_to_null (get_prop detail ''tid''),
      nullish_to_null (get_prop detail ''cpan''),
      nullish_to_null (get_prop detail ''authDateTime''),
      nullish_to_null (get_prop detail ''timeDataChange''),
      nullish_to_null (get_prop detail ''settleDate''),
      JSON_stringify B detail ]"

subsection \<open>The statement\<close>

datatype db_error =
    WrongParameterCount
  | NotNullViolation

text \<open>
  \<^verbatim>\<open>INSERT INTO transactions (reff_number, ..., raw_json, updated_at)
  VALUES (?, ..., ?, CURRENT_TIMESTAMP)\<close>: the candidate row. The twenty
  placeholders take the parameters by position; \<^verbatim>\<open>created_at\<close> is not in the
  column list and takes its default, \<^verbatim>\<open>CURRENT_TIMESTAMP\<close>.
\<close>

fun excluded_row :: "timestamp \<Rightarrow> js_value list \<Rightarrow> db_error + transaction_row" where
  "excluded_row now [p0, p1, p2, p3, p4, p5, p6, p7, p8, p9,
                     p10, p11, p12, p13, p14, p15, p16, p17, p18, p19] =
     Inr \<lparr> reff_number = p0, number_col = p1, is_transfer_to_rek = p2,
           transfer_amount = p3, transfer_amount_number = p4,
           fee_amount = p5, fee_amount_number = p6,
           auth_amount = p7, auth_amount_number = p8,
           percentage_fee_amount = p9, percentage_fee_amount_number = p10,
           issuer_name = p11, customer_name = p12, mpan = p13, tid = p14, cpan = p15,
           auth_date_time = p16, time_data_change = p17, settle_date = p18,
           raw_json = p19, created_at = now, updated_at = now \<rparr>"
| "excluded_row now ps = Inl WrongParameterCount"

text \<open>
  \<^verbatim>\<open>ON CONFLICT(reff_number) DO UPDATE SET number = excluded.number, ...,
  raw_json = excluded.raw_json, updated_at = CURRENT_TIMESTAMP\<close>: the stored row
  keeps \<^verbatim>\<open>reff_number\<close> and \<^verbatim>\<open>created_at\<close>, which the SET list does not name.
\<close>

definition do_update :: "timestamp \<Rightarrow> transaction_row \<Rightarrow> transaction_row \<Rightarrow> transaction_row" where
  "do_update now excluded stored =
     stored \<lparr> number_col := number_col excluded,
              is_transfer_to_rek := is_transfer_to_rek excluded,
              transfer_amount := transfer_amount excluded,
              transfer_amount_number := transfer_amount_number excluded,
              fee_amount := fee_amount excluded,
              fee_amount_number := fee_amount_number excluded,
              auth_amount := auth_amount excluded,
              auth_amount_number := auth_amount_number excluded,
              percentage_fee_amount := percentage_fee_amount excluded,
              percentage_fee_amount_number := percentage_fee_amount_number excluded,
              issuer_name := issuer_name excluded,
              customer_name := customer_name excluded,
              mpan := mpan excluded,
              tid := tid excluded,
              cpan := cpan excluded,
              auth_date_time := auth_date_time excluded,
              time_data_change := time_data_change excluded,
              settle_date := settle_date excluded,
              raw_json := raw_json excluded,
              updated_at := now \<rparr>"

text \<open>
  One execution of the statement at clock value \<open>now\<close>. The column
  \<^verbatim>\<open>is_transfer_to_rek\<close> is declared \<^verbatim>\<open>NOT NULL\<close>: a null there makes the
  statement fail. A row with the same primary key is updated in place,
  otherwise the candidate row is added.
\<close>

definition upsert_statement ::
  "timestamp \<Rightarrow> js_value list \<Rightarrow> transactions_table \<Rightarrow> db_error + transactions_table" where
  "upsert_statement now params tbl =
     (case excluded_row now params of
        Inl e \<Rightarrow> Inl e
      | Inr excluded \<Rightarrow>
          if is_transfer_to_rek excluded = JNull then Inl NotNullViolation
          else if reff_number excluded \<in> reff_number ` set tbl
          then Inr (map (\<lambda>stored. if reff_number stored = reff_number excluded
                                   then do_update now excluded stored else stored) tbl)
          else Inr (tbl @ [excluded]))"

subsection \<open>The loops\<close>

text \<open>
  \<^verbatim>\<open>
  let stored = 0;
  for (const detail of transactions) {
    if (!detail?.reffNumber) continue;
    const params = mapDetailToParams(detail);
    await db.prepare(...).bind(...params).run();
    stored++;
  }
  return stored;
  \<close>
  A list element is \<open>None\<close> when it is null or undefined. The statement that
  runs after \<open>stored\<close> earlier ones reads the clock value \<open>clock stored\<close>. A
  failing statement throws, which ends the loop.
\<close>

fun upsert_loop ::
  "js_builtins \<Rightarrow> (nat \<Rightarrow> timestamp) \<Rightarrow> js_props option list \<Rightarrow>
   transactions_table \<times> nat \<Rightarrow> db_error + transactions_table \<times> nat" where
  "upsert_loop B clock [] (db, stored) = Inr (db, stored)"
| "upsert_loop B clock (None # rest) (db, stored) = upsert_loop B clock rest (db, stored)"
| "upsert_loop B clock (Some detail # rest) (db, stored) =
     (if \<not> truthy (get_prop detail ''reffNumber'')
      then upsert_loop B clock rest (db, stored)
      else case upsert_statement (clock stored) (mapDetailToParams B detail) db of
             Inl e \<Rightarrow> Inl e
           | Inr db' \<Rightarrow> upsert_loop B clock rest (db', stored + 1))"

definition upsertTransactions ::
  "js_builtins \<Rightarrow> (nat \<Rightarrow> timestamp) \<Rightarrow> transactions_table \<Rightarrow> js_props option list \<Rightarrow>
   db_error + transactions_table \<times> nat" where
  "upsertTransactions B clock db transactions = upsert_loop B clock transactions (db, 0)"

text \<open>
  \<^verbatim>\<open>persistDetails\<close> of the monitor script is the same loop, with the guard
  \<^verbatim>\<open>if (!detail || !detail.reffNumber) continue;\<close> and the parameters of
  \<^verbatim>\<open>mapDetailToColumns\<close>.
\<close>

fun persist_loop ::
  "js_builtins \<Rightarrow> (nat \<Rightarrow> timestamp) \<Rightarrow> js_props option list \<Rightarrow>
   transactions_table \<times> nat \<Rightarrow> db_error + transactions_table \<times> nat" where
  "persist_loop B clock [] (db, stored) = Inr (db, stored)"
| "persist_loop B clock (None # rest) (db, stored) = persist_loop B clock rest (db, stored)"
| "persist_loop B clock (Some detail # rest) (db, stored) =
     (if \<not> truthy (get_prop detail ''reffNumber'')
      then persist_loop B clock rest (db, stored)
      else case upsert_statement (clock stored) (mapDetailToColumns B detail) db of
             Inl e \<Rightarrow> Inl e
           | Inr db' \<Rightarrow> persist_loop B clock rest (db', stored + 1))"

definition persistDetails ::
  "js_builtins \<Rightarrow> (nat \<Rightarrow> timestamp) \<Rightarrow> transactions_table \<Rightarrow> js_props option list \<Rightarrow>
   db_error + transactions_table \<times> nat" where
  "persistDetails B clock db details = persist_loop B clock details (db, 0)"

text \<open>A valid detail record: its reference number is a non-empty string.\<close>

definition valid_detail :: "js_props option \<Rightarrow> bool" where
  "valid_detail d =
     (case d of
        None \<Rightarrow> False
      | Some detail \<Rightarrow>
          (case get_prop detail ''reffNumber'' of JStr s \<Rightarrow> s \<noteq> [] | _ \<Rightarrow> False))"

definition reff_of :: "js_props option \<Rightarrow> js_value" where
  "reff_of d = (case d of None \<Rightarrow> JUndefined | Some detail \<Rightarrow> get_prop detail ''reffNumber'')"

definition find_row :: "transactions_table \<Rightarrow> js_value \<Rightarrow> transaction_row option" where
  "find_row tbl k = find (\<lambda>r. reff_number r = k) tbl"

subsection \<open>Reading the table, and sample records\<close>

text \<open>The reference numbers of the records that the loop does not skip, in order.\<close>

definition accepted :: "js_props option list \<Rightarrow> js_value list" where
  "accepted ds = filter truthy (map reff_of ds)"

text \<open>The twenty bound columns of a row, in the order of the statement.\<close>

definition bound_columns :: "transaction_row \<Rightarrow> js_value list" where
  "bound_columns r =
     [ reff_number r, number_col r, is_transfer_to_rek r,
       transfer_amount r, transfer_amount_number r, fee_amount r, fee_amount_number r,
       auth_amount r, auth_amount_number r,
       percentage_fee_amount r, percentage_fee_amount_number r,
       issuer_name r, customer_name r, mpan r, tid r, cpan r,
       auth_date_time r, time_data_change r, settle_date r, raw_json r ]"

definition the_table :: "db_error + transactions_table \<times> nat \<Rightarrow> transactions_table" where
  "the_table res = (case res of Inl e \<Rightarrow> [] | Inr (tbl, stored) \<Rightarrow> tbl)"

text \<open>Sample built-ins, clocks and records for the concrete runs below.\<close>

definition plain_builtins :: js_builtins where
  "plain_builtins = \<lparr> Number_of = (\<lambda>v. v), JSON_stringify = (\<lambda>d. JStr ''{}'') \<rparr>"

definition frozen_clock :: "nat \<Rightarrow> timestamp" where
  "frozen_clock i = 7"

definition ticking_clock :: "nat \<Rightarrow> nat \<Rightarrow> timestamp" where
  "ticking_clock start i = start + i"

definition tx1_first :: js_props where
  "tx1_first = [(''reffNumber'', JStr ''TX1''), (''authAmountNumber'', JNum 50000),
                (''customerName'', JStr ''JOHN DOE'')]"

definition tx1_second :: js_props where
  "tx1_second = [(''reffNumber'', JStr ''TX1''), (''authAmountNumber'', JNum 75000),
                 (''customerName'', JStr ''JANE DOE''), (''isTransferToRek'', JBool True)]"

definition tx2 :: js_props where
  "tx2 = [(''reffNumber'', JStr ''TX2''), (''isTransferToRek'', JNull)]"

definition tx3 :: js_props where
  "tx3 = [(''reffNumber'', JStr ''TX3''), (''isTransferToRek'', JNum 0)]"

definition row_tx1 :: transaction_row where
  "row_tx1 = \<lparr> reff_number = JStr ''TX1'', number_col = JNull, is_transfer_to_rek = JNum 0,
      transfer_amount = JNull, transfer_amount_number = JNull,
      fee_amount = JNull, fee_amount_number = JNull,
      auth_amount = JNull, auth_amount_number = JNum 50000,
      percentage_fee_amount = JNull, percentage_fee_amount_number = JNull,
      issuer_name = JNull, customer_name = JStr ''JOHN DOE'', mpan = JNull, tid = JNull,
      cpan = JNull, auth_date_time = JNull, time_data_change = JNull, settle_date = JNull,
      raw_json = JStr ''{}'', created_at = 7, updated_at = 7 \<rparr>"

section \<open>Detail extraction\<close>

text \<open>
  The parsed response is a graph of objects. An object lives at an address of a
  store (a list: the address is the index) and is a plain object, with its
  properties in the order \<^verbatim>\<open>Object.values\<close> enumerates them, or an array. A
  value refers to an object by its address, so that two values can refer to the
  same object and an object can refer to one it is reachable from.
\<close>

datatype js_object = PlainObject js_props | ArrayObject "js_value list"

type_synonym js_heap = "js_object list"

text \<open>An address beyond the store holds no object (every reference JavaScript
  hands out points at one).\<close>

definition heap_lookup :: "js_heap \<Rightarrow> nat \<Rightarrow> js_object option" where
  "heap_lookup h a = (if a < length h then Some (h ! a) else None)"

text \<open>\<^verbatim>\<open>node.detail\<close>: an array has no such property.\<close>

definition detail_of :: "js_object \<Rightarrow> js_value" where
  "detail_of obj =
     (case obj of PlainObject ps \<Rightarrow> get_prop ps ''detail'' | ArrayObject xs \<Rightarrow> JUndefined)"

text \<open>What the loop of the walk iterates over: the elements of an array, the
  property values of a plain object.\<close>

definition object_values :: "js_object \<Rightarrow> js_value list" where
  "object_values obj = (case obj of PlainObject ps \<Rightarrow> map snd ps | ArrayObject xs \<Rightarrow> xs)"

text \<open>\<^verbatim>\<open>if (node.detail && typeof node.detail === 'object' && node.detail !== null)
    details.push(node.detail);\<close>\<close>

fun push_detail :: "js_value \<Rightarrow> js_value list \<Rightarrow> js_value list" where
  "push_detail (JRef d) details = details @ [JRef d]"
| "push_detail v details = details"

text \<open>
  \<^verbatim>\<open>
  const walk = (node) => {
    if (!node || typeof node !== 'object') return;
    if (visited.has(node)) return;
    visited.add(node);
    if (node.detail && ...) details.push(node.detail);
    if (Array.isArray(node)) { for (const item of node) walk(item); }
    else { for (const value of Object.values(node)) walk(value); }
  };
  \<close>
  The two variables the closure updates, \<^verbatim>\<open>visited\<close> and \<^verbatim>\<open>details\<close>, are passed
  along; \<open>walk_each\<close> is the \<^verbatim>\<open>for\<close> loop.
\<close>

type_synonym walk_state = "nat set \<times> js_value list"

function (sequential) walk :: "js_heap \<Rightarrow> js_value \<Rightarrow> walk_state \<Rightarrow> walk_state"
  and walk_each :: "js_heap \<Rightarrow> js_value list \<Rightarrow> walk_state \<Rightarrow> walk_state" where
  "walk h (JRef a) (visited, details) =
     (if a \<in> visited then (visited, details)
      else case heap_lookup h a of
             None \<Rightarrow> (visited, details)
           | Some obj \<Rightarrow>
               walk_each h (object_values obj)
                 (insert a visited, push_detail (detail_of obj) details))"
| "walk h node st = st"
| "walk_each h [] st = st"
| "walk_each h (item # items) st = walk_each h items (walk h item st)"
  by pat_completeness auto

text \<open>
  The recursion is nested: the loop goes on from the state its first call
  returns. It ends because a call never forgets a visited object and each object
  that is expanded leaves one object fewer to visit.
\<close>

definition unvisited :: "js_heap \<Rightarrow> nat set \<Rightarrow> nat" where
  "unvisited h visited = card ({..<length h} - visited)"

lemma walk_visited_grows:
  "walk_walk_each_dom (Inl (h, node, st)) \<Longrightarrow> fst st \<subseteq> fst (walk h node st)"
  "walk_walk_each_dom (Inr (h, items, st)) \<Longrightarrow> fst st \<subseteq> fst (walk_each h items st)"
  by (induction h node st and h items st rule: walk_walk_each.pinduct)
     (auto simp: walk.psimps walk_each.psimps split: option.splits)

lemma unvisited_mono: "A \<subseteq> B \<Longrightarrow> unvisited h B \<le> unvisited h A"
  unfolding unvisited_def by (intro card_mono) auto

lemma unvisited_insert:
  "a < length h \<Longrightarrow> a \<notin> visited \<Longrightarrow> unvisited h (insert a visited) < unvisited h visited"
  unfolding unvisited_def by (intro psubset_card_mono) auto

lemma walk_unvisited:
  "walk_walk_each_dom (Inl (h, node, st)) \<Longrightarrow> unvisited h (fst (walk h node st)) \<le> unvisited h (fst st)"
  by (rule unvisited_mono) (rule walk_visited_grows)

text \<open>Every chain of nested calls of the walk is finite, whatever the graph.\<close>

lemma walk_total: "walk_walk_each_dom x"
proof -
  have "All walk_walk_each_dom"
  proof (relation "measures
      [\<lambda>x. case x of Inl (h, node, st) \<Rightarrow> unvisited h (fst st)
                    | Inr (h, items, st) \<Rightarrow> unvisited h (fst st),
       \<lambda>x. case x of Inl (h, node, st) \<Rightarrow> 0
                    | Inr (h, items, st) \<Rightarrow> Suc (length items)]", goal_cases)
    case 1
    show ?case by simp
  next
    case (2 h a visited details obj)
    then show ?case
      by (auto simp: heap_lookup_def unvisited_insert split: if_splits)
  next
    case (3 h item items st)
    show ?case by simp
  next
    case (4 h item items st)
    from walk_unvisited [OF this]
    show ?case by auto
  qed
  then show ?thesis ..
qed

termination walk
  by (simp add: walk_total)

text \<open>
  \<^verbatim>\<open>collectDetailRecords(payload)\<close> of the monitor and
  \<^verbatim>\<open>extractTransactionDetails(payload)\<close> of the worker: the walk from the payload,
  with nothing visited and nothing collected.
\<close>

definition collectDetailRecords :: "js_heap \<Rightarrow> js_value \<Rightarrow> js_value list" where
  "collectDetailRecords h payload = snd (walk h payload ({}, []))"

definition extractTransactionDetails :: "js_heap \<Rightarrow> js_value \<Rightarrow> js_value list" where
  "extractTransactionDetails h payload = snd (walk h payload ({}, []))"

text \<open>The objects that some object of the store holds under the key
  \<^verbatim>\<open>detail\<close>, one entry for each holder.\<close>

definition detail_targets :: "js_heap \<Rightarrow> nat list" where
  "detail_targets h =
     concat (map (\<lambda>obj. case detail_of obj of JRef d \<Rightarrow> [d] | _ \<Rightarrow> []) h)"

definition holders :: "js_heap \<Rightarrow> nat \<Rightarrow> nat set" where
  "holders h d = {a. a < length h \<and> detail_of (h ! a) = JRef d}"

definition counted :: "js_heap \<Rightarrow> walk_state \<Rightarrow> bool" where
  "counted h st = ((\<forall>d. count_list (snd st) (JRef d) \<le> card (holders h d \<inter> fst st))
                   \<and> set (snd st) \<subseteq> range JRef)"

text \<open>A response tree whose item points back at the root, and a graph in which
  two objects hold the root under \<^verbatim>\<open>detail\<close>.\<close>

definition cyclic_heap :: js_heap where
  "cyclic_heap =
     [ PlainObject [(''result'', JRef 1)],
       ArrayObject [JRef 2],
       PlainObject [(''detail'', JRef 3), (''parent'', JRef 0)],
       PlainObject [(''reffNumber'', JStr ''TX1''), (''owner'', JRef 2)] ]"

definition ancestor_heap :: js_heap where
  "ancestor_heap =
     [ PlainObject [(''detail'', JRef 0), (''next'', JRef 1)],
       PlainObject [(''detail'', JRef 0)] ]"

section \<open>Replaying the transaction request\<close>

text \<open>
  A header set is a JavaScript object from header names to values, kept as the
  list of its properties. \<open>assign_prop\<close> is \<^verbatim>\<open>obj[key] = value\<close>: it replaces
  the value of a property the object has and adds the property otherwise.
\<close>

type_synonym headers = "(string \<times> string) list"

fun assign_prop :: "string \<Rightarrow> 'v \<Rightarrow> (string \<times> 'v) list \<Rightarrow> (string \<times> 'v) list" where
  "assign_prop k v [] = [(k, v)]"
| "assign_prop k v ((k', v') # ps) =
     (if k' = k then (k, v) # ps else (k', v') # assign_prop k v ps)"

text \<open>\<^verbatim>\<open>!headers[key]\<close>: the header is missing or empty.\<close>

definition header_missing :: "headers \<Rightarrow> string \<Rightarrow> bool" where
  "header_missing hs k = (case map_of hs k of None \<Rightarrow> True | Some v \<Rightarrow> v = [])"

text \<open>
  The monitor script:
  \<^verbatim>\<open>
  function filterHeaders(headers = {}) {
    const allowed = new Set(['secret-id', 'secret-key', 'secret-token',
      'session-item', 'accept', 'accept-language', 'referer']);
    const filtered = {};
    for (const [key, value] of Object.entries(headers)) {
      const lower = key.toLowerCase();
      if (allowed.has(lower)) filtered[lower] = value;
    }
    return filtered;
  }
  \<close>
\<close>

definition allowed_headers :: "string list" where
  "allowed_headers =
     [''secret-id'', ''secret-key'', ''secret-token'', ''session-item'',
      ''accept'', ''accept-language'', ''referer'']"

fun filter_loop :: "headers \<Rightarrow> headers \<Rightarrow> headers" where
  "filter_loop [] filtered = filtered"
| "filter_loop ((key, v) # entries) filtered =
     (let lower = toLowerCase key in
      if lower \<in> set allowed_headers
      then filter_loop entries (assign_prop lower v filtered)
      else filter_loop entries filtered)"

definition filterHeaders :: "headers \<Rightarrow> headers" where
  "filterHeaders hs = filter_loop hs []"

text \<open>
  The one-shot script:
  \<^verbatim>\<open>
  function whitelistedHeaders(headerMap, keys) {
    const result = {};
    for (const key of keys) {
      if (headerMap[key]) result[key] = headerMap[key];
    }
    return result;
  }
  \<close>
\<close>

fun whitelist_loop :: "headers \<Rightarrow> string list \<Rightarrow> headers \<Rightarrow> headers" where
  "whitelist_loop headerMap [] result = result"
| "whitelist_loop headerMap (key # keys) result =
     (case map_of headerMap key of
        None \<Rightarrow> whitelist_loop headerMap keys result
      | Some v \<Rightarrow>
          if v = [] then whitelist_loop headerMap keys result
          else whitelist_loop headerMap keys (assign_prop key v result))"

definition whitelistedHeaders :: "headers \<Rightarrow> string list \<Rightarrow> headers" where
  "whitelistedHeaders headerMap keys = whitelist_loop headerMap keys []"

subsection \<open>The portal\<close>

text \<open>
  The request that \<^verbatim>\<open>fetch\<close> sends from the page, and what comes back: the call
  is rejected with a message, or there is a response. \<open>parsed\<close> is the outcome of
  parsing the body as JSON: nothing when it does not parse, else the object
  graph and its root value.
\<close>

record http_request =
  req_url :: string
  req_query :: "(string \<times> string) list"
  req_method :: string
  req_headers :: headers

record http_response =
  resp_ok :: bool
  resp_status :: nat
  resp_text :: string
  resp_parsed :: "(js_heap \<times> js_value) option"

type_synonym portal = "http_request \<Rightarrow> string + http_response"

definition TRANSACTION_API_URL :: string where
  "TRANSACTION_API_URL =
     ''https://qris.bankmandiri.co.id/api/homeScreen/getDataTransaksi/auth/homeScreen''"

definition transaction_request :: "headers \<Rightarrow> string \<Rightarrow> string \<Rightarrow> http_request" where
  "transaction_request hs startDate endDate =
     \<lparr> req_url = TRANSACTION_API_URL,
       req_query = [(''startDate'', startDate), (''endDate'', endDate),
                    (''isLimitValidated'', ''false'')],
       req_method = ''GET'',
       req_headers = hs \<rparr>"

text \<open>
  An error object as the scripts throw and inspect it: the \<^verbatim>\<open>status\<close> property
  when it is a number, and the message (empty when there is none).
\<close>

datatype js_error = JsError (error_status: "nat option") (error_message: string)

text \<open>
  \<^verbatim>\<open>fetchTransactionsFromPage\<close> of the one-shot script. The second component of
  the result lists the requests that were sent. The message of a parse error is
  the engine's; a fixed text stands for it.
  \<^verbatim>\<open>
  const filteredHeaders = whitelistedHeaders(headers, headerKeys);
  if (!filteredHeaders['secret-id'] || !filteredHeaders['secret-key'])
    throw new Error('Captured headers did not include required secret fields.');
  const payload = await page.evaluate(async (...) => {
      const response = await fetch(`${url}?${params.toString()}`, {method: 'GET', headers});
      if (!response.ok) {
        const text = await response.text();
        throw new Error(`Transaction API returned ${response.status}: ${text.slice(0, 200)}`);
      }
      return response.json();
    }, ...);
  return payload;
  \<close>
\<close>

definition headerKeys :: "string list" where
  "headerKeys = [''secret-id'', ''secret-key'', ''secret-token'', ''session-item'', ''accept'']"

definition fetchTransactionsFromPage ::
  "portal \<Rightarrow> headers \<Rightarrow> string \<Rightarrow> string \<Rightarrow>
   (js_error + js_heap \<times> js_value) \<times> http_request list" where
  "fetchTransactionsFromPage net hs startDate endDate =
     (let filteredHeaders = whitelistedHeaders hs headerKeys in
      if header_missing filteredHeaders ''secret-id'' \<or> header_missing filteredHeaders ''secret-key''
      then (Inl (JsError None ''Captured headers did not include required secret fields.''), [])
      else let request = transaction_request filteredHeaders startDate endDate in
        (case net request of
           Inl msg \<Rightarrow> (Inl (JsError None msg), [request])
         | Inr response \<Rightarrow>
             if \<not> resp_ok response
             then (Inl (JsError None (''Transaction API returned '' @ dec (resp_status response)
                          @ '': '' @ take 200 (resp_text response))), [request])
             else (case resp_parsed response of
                     None \<Rightarrow> (Inl (JsError None ''Unexpected token in JSON''), [request])
                   | Some payload \<Rightarrow> (Inr payload, [request]))))"

text \<open>
  \<^verbatim>\<open>fetchTransactions\<close> of the monitor script. Inside the page every failure is
  turned into a result object; outside, a result that is not ok is thrown with
  its status, and a body that did not parse (or parsed to a falsy value) is
  thrown as invalid JSON.
  \<^verbatim>\<open>
  const filteredHeaders = filterHeaders(headers);
  const result = await page.evaluate(async (...) => {
      try {
        const response = await fetch(`${url}?${params.toString()}`, {method: 'GET', headers});
        const text = await response.text();
        let data = null;
        try { data = JSON.parse(text); } catch (_) { data = null; }
        return { ok: response.ok, status: response.status, data, text: text.slice(0, 5000) };
      } catch (error) {
        return { ok: false, status: 0, error: error.message || String(error) };
      }
    }, ...);
  if (!result.ok) {
    const err = new Error(`Transaction fetch failed: HTTP ${result.status} ${result.error || ''}`);
    err.status = result.status;
    err.body = result.text;
    throw err;
  }
  if (!result.data) throw new Error('Transaction response is not valid JSON');
  return result.data;
  \<close>
\<close>

record page_result =
  res_ok :: bool
  res_status :: nat
  res_data :: "(js_heap \<times> js_value) option"
  res_text :: "string option"
  res_error :: "string option"

definition evaluate_fetch :: "portal \<Rightarrow> http_request \<Rightarrow> page_result" where
  "evaluate_fetch net request =
     (case net request of
        Inl msg \<Rightarrow>
          \<lparr> res_ok = False, res_status = 0, res_data = None, res_text = None,
            res_error = Some msg \<rparr>
      | Inr response \<Rightarrow>
          \<lparr> res_ok = resp_ok response, res_status = resp_status response,
            res_data = resp_parsed response, res_text = Some (take 5000 (resp_text response)),
            res_error = None \<rparr>)"

definition fetchTransactions ::
  "portal \<Rightarrow> headers \<Rightarrow> string \<Rightarrow> string \<Rightarrow>
   (js_error + js_heap \<times> js_value) \<times> http_request list" where
  "fetchTransactions net hs startDate endDate =
     (let filteredHeaders = filterHeaders hs;
          request = transaction_request filteredHeaders startDate endDate;
          result = evaluate_fetch net request in
      if \<not> res_ok result
      then (Inl (JsError (Some (res_status result))
              (''Transaction fetch failed: HTTP '' @ dec (res_status result) @ '' ''
                 @ (case res_error result of None \<Rightarrow> [] | Some e \<Rightarrow> e))),
            [request])
      else (case res_data result of
              None \<Rightarrow> (Inl (JsError None ''Transaction response is not valid JSON''), [request])
            | Some (h, data) \<Rightarrow>
                if \<not> truthy data
                then (Inl (JsError None ''Transaction response is not valid JSON''), [request])
                else (Inr (h, data), [request])))"

text \<open>Sample header sets and portals for the concrete runs below.\<close>

definition headers_without_key :: headers where
  "headers_without_key =
     [(''secret-id'', ''id-1''), (''secret-token'', ''tok-1''), (''accept'', ''application/json'')]"

definition headers_complete :: headers where
  "headers_complete =
     [(''secret-id'', ''id-1''), (''secret-key'', ''key-1''), (''secret-token'', ''tok-1'')]"

definition portal_status :: "nat \<Rightarrow> portal" where
  "portal_status code request =
     Inr \<lparr> resp_ok = (200 \<le> code \<and> code < 300), resp_status = code,
           resp_text = [], resp_parsed = None \<rparr>"

section \<open>Login sequence\<close>

text \<open>
  The browser is a collaborator: what the model needs of a run is, for every
  step that waits on the page, whether the step came through or threw (a wait
  throws when its timeout runs out). The flags are read in the order of the
  steps.
\<close>

record login_world =
  on_home_screen :: bool
  goto_done :: bool
  cta_done :: bool
  form_seen :: bool
  username_typed :: bool
  password_typed :: bool
  submit_clicked :: bool
  navigation_seen :: bool
  refresh_seen :: bool
  post_login_url_seen :: bool
  document_ready_seen :: bool
  home_api_seen :: bool
  body_seen :: bool

record login_config =
  username :: string
  password :: string
  usernameSelector :: string
  passwordSelector :: string

datatype login_error =
    MissingCredential string
  | NavigationError
  | CtaError
  | FormTimeout
  | FieldNotFound string
  | LoginButtonNotFound
  | WaitTimeout string

text \<open>A step that throws \<open>e\<close> unless it came through; \<^verbatim>\<open>.catch(() => null)\<close> and
  \<^verbatim>\<open>try { ... } catch (_) { }\<close> around a step; and the sequencing of
  \<^verbatim>\<open>await\<close>, which stops at the first step that throws.\<close>

definition step :: "bool \<Rightarrow> login_error \<Rightarrow> login_error + unit" where
  "step came_through e = (if came_through then Inr () else Inl e)"

definition tolerated :: "login_error + unit \<Rightarrow> login_error + unit" where
  "tolerated r = Inr ()"

definition and_then :: "login_error + unit \<Rightarrow> login_error + unit \<Rightarrow> login_error + unit" where
  "and_then first rest = (case first of Inl e \<Rightarrow> Inl e | Inr u \<Rightarrow> rest)"

text \<open>
  The monitor script:
  \<^verbatim>\<open>
  async function waitForPostLoginSignals(page) {
    await page.waitForResponse(/* POST to the refresh API */, { timeout: 15000 })
      .catch(() => null);
    await page.waitForFunction(/* URL has /homeScreen or /riwayatTransaksi */,
      { timeout: 15000 }).catch(() => null);
    await page.waitForFunction(() => document.readyState === 'complete', { timeout: 15000 });
    await delay(3000);
  }
  \<close>
\<close>

definition waitForPostLoginSignals :: "login_world \<Rightarrow> login_error + unit" where
  "waitForPostLoginSignals w =
     and_then (tolerated (step (refresh_seen w) (WaitTimeout ''waitForResponse'')))
    (and_then (tolerated (step (post_login_url_seen w) (WaitTimeout ''waitForFunction'')))
    (and_then (step (document_ready_seen w) (WaitTimeout ''waitForFunction''))
              (Inr ())))"

text \<open>
  \<^verbatim>\<open>
  async function ensureLogin(page, options = {}) {
    const force = options.force || false;
    if (!force && page.url().includes('/homeScreen')) return;
    await page.goto(CONFIG.loginUrl, { waitUntil: 'networkidle2' });
    await openLoginFormIfNeeded(page);
    if (CONFIG.usernameSelector === '' && CONFIG.passwordSelector === '')
      await page.waitForSelector('form', { timeout: 20000 });
    await typeIntoField(page, { kind: 'username', ... });
    await delay(1000);
    await typeIntoField(page, { kind: 'password', ... });
    await delay(1000);
    const navigationPromise = page.waitForNavigation({...}).catch(() => null);
    await clickLoginButton(page, CONFIG.submitSelector, CONFIG.submitText);
    await navigationPromise;
    await waitForPostLoginSignals(page);
  }
  \<close>
\<close>

definition ensureLogin :: "login_config \<Rightarrow> login_world \<Rightarrow> bool \<Rightarrow> login_error + unit" where
  "ensureLogin cfg w force =
     (if \<not> force \<and> on_home_screen w then Inr ()
      else
        and_then (step (goto_done w) NavigationError)
       (and_then (step (cta_done w) CtaError)
       (and_then (if usernameSelector cfg = [] \<and> passwordSelector cfg = []
                  then step (form_seen w) FormTimeout else Inr ())
       (and_then (step (username_typed w) (FieldNotFound ''username''))
       (and_then (step (password_typed w) (FieldNotFound ''password''))
       (and_then (step (submit_clicked w) LoginButtonNotFound)
       (and_then (tolerated (step (navigation_seen w) (WaitTimeout ''waitForNavigation'')))
                 (waitForPostLoginSignals w))))))))"

text \<open>
  \<^verbatim>\<open>login(page)\<close> of the one-shot script first checks the credentials,
  \<^verbatim>\<open>
  requireEnvValue(username, 'MANDIRI_USERNAME is required');
  requireEnvValue(password, 'MANDIRI_PASSWORD is required');
  \<close>
  has the same steps up to the click, and then
  \<^verbatim>\<open>
  try { await page.waitForResponse(/* refresh */, { timeout: 15000 }); } catch (_) { }
  try { await page.waitForFunction(/* URL */, { timeout: 15000 }); }
  catch (error) { /* an extra delay while still on the login page */ }
  await page.waitForFunction(() => document.readyState === 'complete', { timeout: 15000 });
  await page.waitForResponse(/* home screen API */, { timeout: 20000 }).catch(() => null);
  await page.waitForSelector('body', { timeout: 15000 });
  await delay(3000);
  \<close>
\<close>

definition login :: "login_config \<Rightarrow> login_world \<Rightarrow> login_error + unit" where
  "login cfg w =
     and_then (step (username cfg \<noteq> []) (MissingCredential ''MANDIRI_USERNAME is required''))
    (and_then (step (password cfg \<noteq> []) (MissingCredential ''MANDIRI_PASSWORD is required''))
    (and_then (step (goto_done w) NavigationError)
    (and_then (step (cta_done w) CtaError)
    (and_then (if usernameSelector cfg = [] \<and> passwordSelector cfg = []
               then step (form_seen w) FormTimeout else Inr ())
    (and_then (step (username_typed w) (FieldNotFound ''username''))
    (and_then (step (password_typed w) (FieldNotFound ''password''))
    (and_then (step (submit_clicked w) LoginButtonNotFound)
    (and_then (tolerated (step (navigation_seen w) (WaitTimeout ''waitForNavigation'')))
    (and_then (tolerated (step (refresh_seen w) (WaitTimeout ''waitForResponse'')))
    (and_then (tolerated (step (post_login_url_seen w) (WaitTimeout ''waitForFunction'')))
    (and_then (step (document_ready_seen w) (WaitTimeout ''waitForFunction''))
    (and_then (tolerated (step (home_api_seen w) (WaitTimeout ''waitForResponse'')))
    (and_then (step (body_seen w) (WaitTimeout ''waitForSelector''))
              (Inr ()))))))))))))))"

text \<open>
  \<^verbatim>\<open>waitForPostLogin\<close> of the worker waits for the refresh response and for the
  URL, both with \<^verbatim>\<open>.catch(() => {})\<close>, and has no wait for the document.
\<close>

definition waitForPostLogin :: "login_world \<Rightarrow> login_error + unit" where
  "waitForPostLogin w =
     and_then (tolerated (step (refresh_seen w) (WaitTimeout ''waitForResponse'')))
    (and_then (tolerated (step (post_login_url_seen w) (WaitTimeout ''waitForFunction'')))
              (Inr ()))"

text \<open>A run in which every step comes through, and the default configuration.\<close>

definition smooth_world :: login_world where
  "smooth_world =
     \<lparr> on_home_screen = False, goto_done = True, cta_done = True, form_seen = True,
       username_typed = True, password_typed = True, submit_clicked = True,
       navigation_seen = True, refresh_seen = True, post_login_url_seen = True,
       document_ready_seen = True, home_api_seen = True, body_seen = True \<rparr>"

definition default_login_config :: login_config where
  "default_login_config =
     \<lparr> username = ''081234567890'', password = ''secret'',
       usernameSelector = [], passwordSelector = [] \<rparr>"

section \<open>Poll scheduler\<close>

text \<open>
  \<^verbatim>\<open>
  function shouldRelogin(error) {
    if (!error) return false;
    if (error.status === 401 || error.status === 403) return true;
    const message = String(error.message || '').toLowerCase();
    return message.includes('unauthorized') || message.includes('forbidden')
      || message.includes('login');
  }
  \<close>
  The argument is \<open>None\<close> when the value that was thrown is falsy.
\<close>

definition shouldRelogin :: "js_error option \<Rightarrow> bool" where
  "shouldRelogin error =
     (case error of
        None \<Rightarrow> False
      | Some e \<Rightarrow>
          if error_status e = Some 401 \<or> error_status e = Some 403 then True
          else let message = toLowerCase (error_message e) in
            str_includes message ''unauthorized'' \<or> str_includes message ''forbidden''
              \<or> str_includes message ''login'')"

text \<open>
  \<^verbatim>\<open>
  function todayRange() {
    const now = new Date();
    ...
    const formatted = `${yyyy}${mm}${dd}`;
    return { startDate: formatted, endDate: formatted };
  }
  \<close>
\<close>

definition todayRange :: "js_date \<Rightarrow> string \<times> string" where
  "todayRange now = (formatDate now, formatDate now)"

text \<open>
  What a cycle meets outside the scheduler: the outcome of
  \<^verbatim>\<open>captureTransactionHeaders\<close> when the headers are refreshed, the portal, the
  date, the outcome of \<^verbatim>\<open>persistDetails\<close> on the collected details (the number of
  rows stored, or the error of a failing database call), and the outcomes of the
  three steps of a re-login. What a cycle does is recorded in a list of actions.
\<close>

record cycle_world =
  refresh_capture :: "js_error + headers"
  the_portal :: portal
  today :: js_date
  persist :: "js_heap \<times> js_value list \<Rightarrow> js_error + nat"
  forced_login :: "js_error + unit"
  open_transactions_page :: "js_error + unit"
  relogin_capture :: "js_error + headers"

datatype action =
    CaptureHeaders
  | SendRequest http_request
  | LogNoDetails
  | PersistDetails "js_value list"
  | LogUpserted nat
  | LogFailed js_error
  | LogAttemptRelogin
  | ForcedLogin
  | OpenTransactionsPage
  | LogReloginFailed js_error

text \<open>
  \<^verbatim>\<open>
  async function refreshHeadersIfNeeded(page, headers) {
    if (headers && headers['secret-token']) return headers;
    return await captureTransactionHeaders(page);
  }
  \<close>
\<close>

definition refreshHeadersIfNeeded ::
  "cycle_world \<Rightarrow> headers \<Rightarrow> (js_error + headers) \<times> action list" where
  "refreshHeadersIfNeeded w hs =
     (if \<not> header_missing hs ''secret-token'' then (Inr hs, [])
      else (refresh_capture w, [CaptureHeaders]))"

text \<open>
  \<^verbatim>\<open>
  async function fetchAndStore(page, headers) {
    const { startDate, endDate } = todayRange();
    const payload = await fetchTransactions(page, headers, startDate, endDate);
    const details = collectDetailRecords(payload);
    if (!details.length) { console.log('[polling] No transaction details found'); return; }
    const stored = await persistDetails(details);
    console.log(`[polling] Upserted ${stored} transaction detail(s) to Cloudflare D1`);
  }
  \<close>
\<close>

definition fetchAndStore :: "cycle_world \<Rightarrow> headers \<Rightarrow> (js_error + unit) \<times> action list" where
  "fetchAndStore w hs =
     (let (startDate, endDate) = todayRange (today w) in
      case fetchTransactions (the_portal w) hs startDate endDate of
        (Inl e, sent) \<Rightarrow> (Inl e, map SendRequest sent)
      | (Inr (h, payload), sent) \<Rightarrow>
          let details = collectDetailRecords h payload in
          if details = [] then (Inr (), map SendRequest sent @ [LogNoDetails])
          else (case persist w (h, details) of
                  Inl e \<Rightarrow> (Inl e, map SendRequest sent @ [PersistDetails details])
                | Inr stored \<Rightarrow>
                    (Inr (), map SendRequest sent @ [PersistDetails details, LogUpserted stored])))"

record poll_state =
  polling :: bool
  lastRun :: int
  latestHeaders :: headers

text \<open>
  The \<^verbatim>\<open>catch\<close> block of \<^verbatim>\<open>poll\<close>:
  \<^verbatim>\<open>
  console.error('[polling] Failed:', error);
  if (shouldRelogin(error)) {
    console.warn('[polling] Attempting re-login...');
    try {
      await ensureLogin(page, { force: true });
      await ensureTransactionsPage(page);
      latestHeaders = await captureTransactionHeaders(page);
    } catch (innerErr) {
      console.error('[polling] Re-login failed:', innerErr);
    }
  }
  \<close>
\<close>

definition relogin :: "cycle_world \<Rightarrow> poll_state \<Rightarrow> poll_state \<times> action list" where
  "relogin w st =
     (case forced_login w of
        Inl innerErr \<Rightarrow> (st, [ForcedLogin, LogReloginFailed innerErr])
      | Inr u \<Rightarrow>
          (case open_transactions_page w of
             Inl innerErr \<Rightarrow> (st, [ForcedLogin, OpenTransactionsPage, LogReloginFailed innerErr])
           | Inr u \<Rightarrow>
               (case relogin_capture w of
                  Inl innerErr \<Rightarrow>
                    (st, [ForcedLogin, OpenTransactionsPage, CaptureHeaders,
                          LogReloginFailed innerErr])
                | Inr hs \<Rightarrow>
                    (st \<lparr> latestHeaders := hs \<rparr>,
                     [ForcedLogin, OpenTransactionsPage, CaptureHeaders]))))"

definition on_failure :: "cycle_world \<Rightarrow> poll_state \<Rightarrow> js_error \<Rightarrow> poll_state \<times> action list" where
  "on_failure w st error =
     (if shouldRelogin (Some error)
      then (let (st', acts) = relogin w st in (st', [LogFailed error, LogAttemptRelogin] @ acts))
      else (st, [LogFailed error]))"

text \<open>
  \<^verbatim>\<open>
  const poll = async () => {
    if (polling) return;
    const now = Date.now();
    if (now - lastRun < CONFIG.pollIntervalMs - 1000) return;
    polling = true;
    lastRun = now;
    try {
      latestHeaders = await refreshHeadersIfNeeded(page, latestHeaders);
      await fetchAndStore(page, latestHeaders);
    } catch (error) { ... } finally {
      polling = false;
    }
  };
  \<close>
  Times and the interval are whole milliseconds. \<open>poll_enter\<close> is the part that
  runs before the first \<^verbatim>\<open>await\<close>, in one go: it gives no state when the cycle
  is skipped. \<open>poll_body\<close> is the \<^verbatim>\<open>try\<close> with its \<^verbatim>\<open>catch\<close>, \<open>poll_leave\<close> the
  \<^verbatim>\<open>finally\<close>.
\<close>

definition poll_enter :: "int \<Rightarrow> int \<Rightarrow> poll_state \<Rightarrow> poll_state option" where
  "poll_enter pollIntervalMs now st =
     (if polling st then None
      else if now - lastRun st < pollIntervalMs - 1000 then None
      else Some (st \<lparr> polling := True, lastRun := now \<rparr>))"

definition poll_body :: "cycle_world \<Rightarrow> poll_state \<Rightarrow> poll_state \<times> action list" where
  "poll_body w st =
     (case refreshHeadersIfNeeded w (latestHeaders st) of
        (Inl error, acts) \<Rightarrow>
          (let (st', acts') = on_failure w st error in (st', acts @ acts'))
      | (Inr hs, acts) \<Rightarrow>
          (let st1 = st \<lparr> latestHeaders := hs \<rparr> in
           case fetchAndStore w hs of
             (Inl error, acts1) \<Rightarrow>
               (let (st', acts') = on_failure w st1 error in (st', acts @ acts1 @ acts'))
           | (Inr u, acts1) \<Rightarrow> (st1, acts @ acts1)))"

definition poll_leave :: "poll_state \<Rightarrow> poll_state" where
  "poll_leave st = st \<lparr> polling := False \<rparr>"

definition poll :: "int \<Rightarrow> cycle_world \<Rightarrow> int \<Rightarrow> poll_state \<Rightarrow> poll_state \<times> action list" where
  "poll pollIntervalMs w now st =
     (case poll_enter pollIntervalMs now st of
        None \<Rightarrow> (st, [])
      | Some st1 \<Rightarrow> (let (st2, acts) = poll_body w st1 in (poll_leave st2, acts)))"

subsection \<open>Timers firing while a cycle runs\<close>

text \<open>
  \<^verbatim>\<open>await poll(); setInterval(poll, CONFIG.pollIntervalMs);\<close> A call of \<^verbatim>\<open>poll\<close>
  runs up to its first \<^verbatim>\<open>await\<close> without interruption; from there on other
  timer callbacks can run before the cycle reaches its \<^verbatim>\<open>finally\<close>. So the
  scheduler sees two kinds of events: a call at some time, and a running cycle
  coming to its end. Beside the variables of \<^verbatim>\<open>poll\<close>, two things are recorded
  for the statement of the properties only: the number of cycles that have
  entered and not yet left, and the times of the calls that entered, oldest
  first.
\<close>

datatype sched_event = Invoke int | Finish

record sched_state =
  poll_vars :: poll_state
  in_flight :: nat
  started :: "int list"

fun sched_step :: "int \<Rightarrow> sched_state \<Rightarrow> sched_event \<Rightarrow> sched_state" where
  "sched_step pollIntervalMs s (Invoke now) =
     (case poll_enter pollIntervalMs now (poll_vars s) of
        None \<Rightarrow> s
      | Some st1 \<Rightarrow>
          s \<lparr> poll_vars := st1, in_flight := in_flight s + 1, started := started s @ [now] \<rparr>)"
| "sched_step pollIntervalMs s Finish =
     (if in_flight s = 0 then s
      else s \<lparr> poll_vars := poll_leave (poll_vars s), in_flight := in_flight s - 1 \<rparr>)"

definition sched_run :: "int \<Rightarrow> sched_state \<Rightarrow> sched_event list \<Rightarrow> sched_state" where
  "sched_run pollIntervalMs s events = foldl (sched_step pollIntervalMs) s events"

text \<open>The time of the last run: that of the last call that entered, and 0, the
  initial value of \<^verbatim>\<open>lastRun\<close>, before any.\<close>

definition last_started :: "int list \<Rightarrow> int" where
  "last_started ts = (if ts = [] then 0 else last ts)"

text \<open>Every run starts at least the interval minus one second after the run
  before it (the first one after \<open>prev\<close>).\<close>

fun spaced :: "int \<Rightarrow> int \<Rightarrow> int list \<Rightarrow> bool" where
  "spaced pollIntervalMs prev [] = True"
| "spaced pollIntervalMs prev (t # ts) =
     (pollIntervalMs - 1000 \<le> t - prev \<and> spaced pollIntervalMs t ts)"

text \<open>At most one cycle is in flight, the flag is up exactly while one is,
  \<^verbatim>\<open>lastRun\<close> is the time of the last run, and the runs are spaced.\<close>

definition sched_inv :: "int \<Rightarrow> sched_state \<Rightarrow> bool" where
  "sched_inv pollIntervalMs s =
     (in_flight s \<le> 1
      \<and> (polling (poll_vars s) \<longleftrightarrow> in_flight s = 1)
      \<and> lastRun (poll_vars s) = last_started (started s)
      \<and> spaced pollIntervalMs 0 (started s))"

text \<open>\<^verbatim>\<open>let polling = false; let lastRun = 0;\<close>\<close>

definition initial_poll_state :: "headers \<Rightarrow> poll_state" where
  "initial_poll_state hs = \<lparr> polling = False, lastRun = 0, latestHeaders = hs \<rparr>"

definition initial_sched_state :: "headers \<Rightarrow> sched_state" where
  "initial_sched_state hs =
     \<lparr> poll_vars = initial_poll_state hs, in_flight = 0, started = [] \<rparr>"

text \<open>A portal that answers every request with a given status, in a world where
  the re-login goes through.\<close>

definition world_with_status :: "nat \<Rightarrow> cycle_world" where
  "world_with_status code =
     \<lparr> refresh_capture = Inr headers_complete,
       the_portal = portal_status code,
       today = \<lparr> fullYear = 2025, month0 = 10, dayOfMonth = 26 \<rparr>,
       persist = (\<lambda>details. Inr 0),
       forced_login = Inr (),
       open_transactions_page = Inr (),
       relogin_capture = Inr headers_complete \<rparr>"

section \<open>Listing transactions\<close>

text \<open>
  \<^verbatim>\<open>parseInt(text)\<close> with no radix: leading white space is dropped, then a sign,
  then a \<^verbatim>\<open>0x\<close> prefix switches to base sixteen; the longest run of digits is
  read and what follows is ignored. With no digit the result is \<^verbatim>\<open>NaN\<close>, which
  is \<open>None\<close> here. White space is the ASCII one, and integers are exact (a
  double rounds beyond 2^53).
\<close>

definition is_white :: "char \<Rightarrow> bool" where
  "is_white c = (c \<in> {CHR '' '', CHR 0x09, CHR 0x0A, CHR 0x0B, CHR 0x0C, CHR 0x0D})"

definition digit_value :: "char \<Rightarrow> nat option" where
  "digit_value c =
     map_of (zip ''0123456789abcdefABCDEF''
                 [0, 1, 2, 3, 4, 5, 6, 7, 8, 9, 10, 11, 12, 13, 14, 15, 10, 11, 12, 13, 14, 15]) c"

definition is_radix_digit :: "nat \<Rightarrow> char \<Rightarrow> bool" where
  "is_radix_digit radix c = (case digit_value c of None \<Rightarrow> False | Some d \<Rightarrow> d < radix)"

definition digits_value :: "nat \<Rightarrow> string \<Rightarrow> nat" where
  "digits_value radix ds =
     foldl (\<lambda>acc c. acc * radix + (case digit_value c of None \<Rightarrow> 0 | Some d \<Rightarrow> d)) 0 ds"

definition parseInt :: "string \<Rightarrow> int option" where
  "parseInt text =
     (let s = dropWhile is_white text;
          negative = (take 1 s = ''-'');
          s = (if take 1 s = ''-'' \<or> take 1 s = ''+'' then drop 1 s else s);
          hex = (take 2 s = ''0x'' \<or> take 2 s = ''0X'');
          radix = (if hex then 16 else 10);
          s = (if hex then drop 2 s else s);
          ds = takeWhile (is_radix_digit radix) s in
      if ds = [] then None
      else Some (if negative then - int (digits_value radix ds) else int (digits_value radix ds)))"

text \<open>\<^verbatim>\<open>Math.min(a, 100)\<close>, which is \<^verbatim>\<open>NaN\<close> when \<open>a\<close> is.\<close>

definition math_min :: "int option \<Rightarrow> int \<Rightarrow> int option" where
  "math_min a b = (case a of None \<Rightarrow> None | Some n \<Rightarrow> Some (min n b))"

text \<open>\<^verbatim>\<open>url.searchParams.get(name) || fallback\<close>: the parameter can be absent or
  empty.\<close>

definition param_or :: "string option \<Rightarrow> string \<Rightarrow> string" where
  "param_or p fallback = (case p of None \<Rightarrow> fallback | Some s \<Rightarrow> if s = [] then fallback else s)"

text \<open>
  \<^verbatim>\<open>
  const limit = Math.min(parseInt(url.searchParams.get("limit") || "10"), 100);
  const offset = parseInt(url.searchParams.get("offset") || "0");
  \<close>
\<close>

definition list_limit :: "string option \<Rightarrow> int option" where
  "list_limit limit_param = math_min (parseInt (param_or limit_param ''10'')) 100"

definition list_offset :: "string option \<Rightarrow> int option" where
  "list_offset offset_param = parseInt (param_or offset_param ''0'')"

text \<open>
  The query ends in \<^verbatim>\<open>LIMIT ? OFFSET ?\<close>. The rule of the database (SQLite, behind
  D1) for the two numbers is not in the repository; as documented for SQLite, a
  negative limit puts no bound on the number of rows and a negative offset
  counts as zero.
\<close>

definition sqlite_limit_offset :: "int \<Rightarrow> int \<Rightarrow> 'a list \<Rightarrow> 'a list" where
  "sqlite_limit_offset row_limit row_offset rows =
     (let skipped = drop (nat row_offset) rows in
      if row_limit < 0 then skipped else take (nat row_limit) skipped)"

datatype list_error = DatabaseError

text \<open>
  \<^verbatim>\<open>handleListTransactions\<close>, for the rows that match the filters in the order
  of the query: the \<^verbatim>\<open>transactions\<close> of the response. A parameter that is
  \<^verbatim>\<open>NaN\<close> is taken to make the query fail, which the handler answers with its
  error response; no result below rests on that.
\<close>

definition handleListTransactions ::
  "string option \<Rightarrow> string option \<Rightarrow> 'a list \<Rightarrow> list_error + 'a list" where
  "handleListTransactions limit_param offset_param matching =
     (case (list_limit limit_param, list_offset offset_param) of
        (Some limit, Some offset) \<Rightarrow> Inr (sqlite_limit_offset limit offset matching)
      | _ \<Rightarrow> Inl DatabaseError)"

section \<open>Properties\<close>

subsection \<open>Date normalisation\<close>

lemma normalizeDateInput_eight_digits:
  "normalizeDateInput (Value s) d = Inr r \<Longrightarrow> s \<noteq> [] \<Longrightarrow>
     length r = 8 \<and> list_all is_digit r \<and> r = filter (\<lambda>c. c \<noteq> CHR ''-'') s"
  by (auto simp: normalizeDateInput_def Let_def split: if_splits)

text \<open>
  C5. Both \<^verbatim>\<open>"2025-11-26"\<close> and \<^verbatim>\<open>"20251126"\<close> normalise to
  \<^verbatim>\<open>"20251126"\<close>. The day-first string \<^verbatim>\<open>"25-11-2026"\<close> is not refused:
  once the dashes are gone it is eight digits, and it comes back as
  \<^verbatim>\<open>"25112026"\<close>, although the error message of the function asks for
  \<^verbatim>\<open>YYYY-MM-DD\<close> or \<^verbatim>\<open>YYYYMMDD\<close>.
\<close>

theorem normalizeDateInput_examples:
  "normalizeDateInput (Value ''2025-11-26'') d = Inr ''20251126''
   \<and> normalizeDateInput (Value ''20251126'') d = Inr ''20251126''
   \<and> normalizeDateInput (Value ''25-11-2026'') d = Inr ''25112026''"
  by (simp add: normalizeDateInput_def is_digit_def)

subsection \<open>Upsert store\<close>

text \<open>The two scripts build the same parameters and run the same loop.\<close>

lemma mapDetailToColumns_eq: "mapDetailToColumns B d = mapDetailToParams B d"
  by (simp add: mapDetailToColumns_def mapDetailToParams_def booleanToInt_def)

lemma persist_loop_eq: "persist_loop B clock ds st = upsert_loop B clock ds st"
  by (induction B clock ds st rule: upsert_loop.induct)
     (simp_all add: mapDetailToColumns_eq split: sum.splits)

lemma persistDetails_eq: "persistDetails B clock db ds = upsertTransactions B clock db ds"
  by (simp add: persistDetails_def upsertTransactions_def persist_loop_eq)

lemma reff_number_do_update [simp]: "reff_number (do_update now e s) = reff_number s"
  by (simp add: do_update_def)

lemma created_at_do_update [simp]: "created_at (do_update now e s) = created_at s"
  by (simp add: do_update_def)

lemma excluded_row_params:
  "\<exists>e. excluded_row now (mapDetailToParams B d) = Inr e
     \<and> reff_number e = get_prop d ''reffNumber''
     \<and> is_transfer_to_rek e = (if truthy (get_prop d ''isTransferToRek'') then JNum 1 else JNum 0)"
  by (simp add: mapDetailToParams_def)

lemma upsert_statement_params:
  "\<exists>tbl'. upsert_statement now (mapDetailToParams B d) tbl = Inr tbl'
     \<and> map reff_number tbl' =
         (if get_prop d ''reffNumber'' \<in> reff_number ` set tbl then map reff_number tbl
          else map reff_number tbl @ [get_prop d ''reffNumber''])"
proof -
  obtain e where e: "excluded_row now (mapDetailToParams B d) = Inr e"
    "reff_number e = get_prop d ''reffNumber''" "is_transfer_to_rek e \<noteq> JNull"
    using excluded_row_params [of now B d] by auto
  show ?thesis
    using e by (auto simp: upsert_statement_def o_def intro!: map_cong)
qed

lemma accepted_simps [simp]:
  "accepted [] = []"
  "accepted (None # ds) = accepted ds"
  "accepted (Some d # ds) =
     (if truthy (get_prop d ''reffNumber'') then get_prop d ''reffNumber'' # accepted ds
      else accepted ds)"
  by (simp_all add: accepted_def reff_of_def)

lemma upsert_loop_keys:
  "\<exists>db'. upsert_loop B clock ds (db, n) = Inr (db', n + length (accepted ds))
     \<and> set (map reff_number db') = set (map reff_number db) \<union> set (accepted ds)
     \<and> (distinct (map reff_number db) \<longrightarrow> distinct (map reff_number db'))
     \<and> length db \<le> length db'"
proof (induction B clock ds "(db, n)" arbitrary: db n rule: upsert_loop.induct)
  case (1 B clock db stored)
  then show ?case by simp
next
  case (2 B clock rest db stored)
  then show ?case by simp
next
  case (3 B clock detail rest db stored)
  show ?case
  proof (cases "truthy (get_prop detail ''reffNumber'')")
    case False
    with 3(1) show ?thesis by simp
  next
    case True
    obtain tbl' where t: "upsert_statement (clock stored) (mapDetailToParams B detail) db = Inr tbl'"
      "map reff_number tbl' =
         (if get_prop detail ''reffNumber'' \<in> reff_number ` set db then map reff_number db
          else map reff_number db @ [get_prop detail ''reffNumber''])"
      using upsert_statement_params by blast
    from 3(2) [OF _ t(1)] True obtain db' where
      d: "upsert_loop B clock rest (tbl', stored + 1) = Inr (db', stored + 1 + length (accepted rest))"
      "set (map reff_number db') = set (map reff_number tbl') \<union> set (accepted rest)"
      "distinct (map reff_number tbl') \<longrightarrow> distinct (map reff_number db')"
      "length tbl' \<le> length db'"
      by auto
    have len: "length db \<le> length tbl'"
      using arg_cong [OF t(2), of length] by (simp split: if_splits)
    have dist: "distinct (map reff_number db) \<Longrightarrow> distinct (map reff_number tbl')"
      unfolding t(2) by simp
    have keys: "set (map reff_number tbl') = insert (get_prop detail ''reffNumber'') (set (map reff_number db))"
      unfolding t(2) by auto
    have step: "upsert_loop B clock (Some detail # rest) (db, stored) =
                upsert_loop B clock rest (tbl', stored + 1)"
      using True t(1) by simp
    have acc: "accepted (Some detail # rest) = get_prop detail ''reffNumber'' # accepted rest"
      using True by simp
    have "upsert_loop B clock (Some detail # rest) (db, stored) =
            Inr (db', stored + length (accepted (Some detail # rest)))"
      unfolding step acc using d(1) by simp
    moreover have "set (map reff_number db') =
            set (map reff_number db) \<union> set (accepted (Some detail # rest))"
      unfolding acc d(2) keys by auto
    moreover have "distinct (map reff_number db) \<longrightarrow> distinct (map reff_number db')"
      using dist d(3) by blast
    moreover have "length db \<le> length db'"
      using len d(4) by simp
    ultimately show ?thesis by blast
  qed
qed

lemma valid_detail_truthy: "valid_detail d \<Longrightarrow> truthy (reff_of d)"
  by (auto simp: valid_detail_def reff_of_def split: option.splits js_value.splits)

lemma accepted_valid: "\<forall>d\<in>set ds. valid_detail d \<Longrightarrow> accepted ds = map reff_of ds"
  by (induction ds) (auto simp: accepted_def valid_detail_truthy)

lemma upsertTransactions_valid:
  assumes "\<forall>d\<in>set ds. valid_detail d"
  shows "\<exists>db'. upsertTransactions B clock db ds = Inr (db', length ds)
     \<and> set (map reff_number db') = set (map reff_number db) \<union> reff_of ` set ds
     \<and> (distinct (map reff_number db) \<longrightarrow> distinct (map reff_number db'))"
  using upsert_loop_keys [of B clock ds db 0] accepted_valid [OF assms]
  by (auto simp: upsertTransactions_def)

lemma overlap_count:
  "distinct (map f ys) \<Longrightarrow> length (filter (\<lambda>y. f y \<in> A) ys) = card (A \<inter> f ` set ys)"
  by (induction ys) (auto simp: card_insert_if Int_insert_right)

lemmas example_defs =
  upsertTransactions_def mapDetailToParams_def upsert_statement_def do_update_def
  the_table_def plain_builtins_def frozen_clock_def ticking_clock_def
  tx1_first_def tx1_second_def tx2_def tx3_def row_tx1_def
  get_prop_def toNumber_def valid_detail_def reff_of_def find_row_def

text \<open>
  C1. Starting from the empty table, a batch of \<open>N\<close> valid records with pairwise
  distinct reference numbers is upserted, then a batch of \<open>M\<close> such records,
  \<open>K\<close> of which carry a reference number of the first batch. Both runs succeed
  and store every record; the table then has \<open>N + M - K\<close> rows, one for each
  reference number. This holds for the worker's \<^verbatim>\<open>upsertTransactions\<close> and for the
  monitor's \<^verbatim>\<open>persistDetails\<close>, whatever the clock does.
\<close>

theorem upsert_overlapping_batches:
  assumes v1: "\<forall>d\<in>set batch1. valid_detail d" and d1: "distinct (map reff_of batch1)"
      and v2: "\<forall>d\<in>set batch2. valid_detail d" and d2: "distinct (map reff_of batch2)"
  shows "\<exists>db1 db2.
      upsertTransactions B clock1 [] batch1 = Inr (db1, length batch1)
    \<and> upsertTransactions B clock2 db1 batch2 = Inr (db2, length batch2)
    \<and> persistDetails B clock1 [] batch1 = Inr (db1, length batch1)
    \<and> persistDetails B clock2 db1 batch2 = Inr (db2, length batch2)
    \<and> length db2 = length batch1 + length batch2
         - length (filter (\<lambda>d. reff_of d \<in> reff_of ` set batch1) batch2)
    \<and> distinct (map reff_number db2)
    \<and> set (map reff_number db2) = reff_of ` set batch1 \<union> reff_of ` set batch2"
proof -
  obtain db1 where 1: "upsertTransactions B clock1 [] batch1 = Inr (db1, length batch1)"
    "set (map reff_number db1) = reff_of ` set batch1" "distinct (map reff_number db1)"
    using upsertTransactions_valid [OF v1, of B clock1 "[]"] by auto
  obtain db2 where 2: "upsertTransactions B clock2 db1 batch2 = Inr (db2, length batch2)"
    "set (map reff_number db2) = reff_of ` set batch1 \<union> reff_of ` set batch2"
    "distinct (map reff_number db2)"
    using upsertTransactions_valid [OF v2, of B clock2 db1] 1 by auto
  let ?A = "reff_of ` set batch1" and ?B = "reff_of ` set batch2"
  have "length db2 = card (?A \<union> ?B)"
    using 2(2,3) distinct_card [of "map reff_number db2"] by simp
  moreover have "card ?A = length batch1"
    using d1 distinct_card [of "map reff_of batch1"] by simp
  moreover have "card ?B = length batch2"
    using d2 distinct_card [of "map reff_of batch2"] by simp
  moreover have "length (filter (\<lambda>d. reff_of d \<in> ?A) batch2) = card (?A \<inter> ?B)"
    using overlap_count [OF d2] .
  moreover have "card (?A \<union> ?B) + card (?A \<inter> ?B) = card ?A + card ?B"
    using card_Un_Int [of ?A ?B] by simp
  ultimately have "length db2 = length batch1 + length batch2
         - length (filter (\<lambda>d. reff_of d \<in> ?A) batch2)"
    by linarith
  with 1 2 show ?thesis
    by (simp add: persistDetails_eq)
qed

theorem upsert_overlapping_batches_witness:
  "valid_detail (Some tx1_first) \<and> valid_detail (Some tx2)
   \<and> valid_detail (Some tx1_second) \<and> valid_detail (Some tx3)
   \<and> distinct (map reff_of [Some tx1_first, Some tx2])
   \<and> distinct (map reff_of [Some tx1_second, Some tx3])
   \<and> length (filter (\<lambda>d. reff_of d \<in> reff_of ` set [Some tx1_first, Some tx2])
                 [Some tx1_second, Some tx3]) = 1
   \<and> length (the_table (upsertTransactions plain_builtins frozen_clock
        (the_table (upsertTransactions plain_builtins frozen_clock [] [Some tx1_first, Some tx2]))
        [Some tx1_second, Some tx3])) = 3"
proof -
  have v: "\<forall>d\<in>set [Some tx1_first, Some tx2]. valid_detail d"
    "\<forall>d\<in>set [Some tx1_second, Some tx3]. valid_detail d"
    by (simp_all add: example_defs)
  have d: "distinct (map reff_of [Some tx1_first, Some tx2])"
    "distinct (map reff_of [Some tx1_second, Some tx3])"
    by (simp_all add: example_defs)
  have k: "length (filter (\<lambda>d. reff_of d \<in> reff_of ` set [Some tx1_first, Some tx2])
                 [Some tx1_second, Some tx3]) = 1"
    by (simp add: example_defs)
  from upsert_overlapping_batches [OF v(1) d(1) v(2) d(2), of plain_builtins frozen_clock frozen_clock]
  obtain db1 db2 where
    r: "upsertTransactions plain_builtins frozen_clock [] [Some tx1_first, Some tx2] = Inr (db1, 2)"
       "upsertTransactions plain_builtins frozen_clock db1 [Some tx1_second, Some tx3] = Inr (db2, 2)"
       "length db2 = 2 + 2 - length (filter (\<lambda>d. reff_of d \<in> reff_of ` set [Some tx1_first, Some tx2])
                 [Some tx1_second, Some tx3])"
    by auto
  have "length (the_table (upsertTransactions plain_builtins frozen_clock
        (the_table (upsertTransactions plain_builtins frozen_clock [] [Some tx1_first, Some tx2]))
        [Some tx1_second, Some tx3])) = 3"
    unfolding r(1) the_table_def sum.case prod.case r(2) using r(3) k by simp
  then show ?thesis
    using v d k by simp
qed

lemma find_row_map_update:
  assumes "\<And>s. reff_number (g s) = reff_number s"
  shows "find_row (map (\<lambda>s. if reff_number s = k0 then g s else s) tbl) k =
           (if k = k0 then map_option g (find_row tbl k) else find_row tbl k)"
  by (induction tbl) (auto simp: find_row_def assms)

lemma find_row_key: "find_row tbl k = Some r \<Longrightarrow> reff_number r = k \<and> r \<in> set tbl"
  by (auto simp: find_row_def find_Some_iff)

lemma upsert_statement_existing:
  assumes f: "find_row tbl (get_prop d ''reffNumber'') = Some r"
  shows "\<exists>tbl' e. excluded_row now (mapDetailToParams B d) = Inr e
      \<and> upsert_statement now (mapDetailToParams B d) tbl = Inr tbl'
      \<and> find_row tbl' (get_prop d ''reffNumber'') = Some (do_update now e r)
      \<and> length tbl' = length tbl
      \<and> (\<forall>k. k \<noteq> get_prop d ''reffNumber'' \<longrightarrow> find_row tbl' k = find_row tbl k)"
proof -
  obtain e where e: "excluded_row now (mapDetailToParams B d) = Inr e"
    "reff_number e = get_prop d ''reffNumber''" "is_transfer_to_rek e \<noteq> JNull"
    using excluded_row_params [of now B d] by auto
  have mem: "get_prop d ''reffNumber'' \<in> reff_number ` set tbl"
    using find_row_key [OF f] by force
  let ?tbl' = "map (\<lambda>stored. if reff_number stored = get_prop d ''reffNumber''
                               then do_update now e stored else stored) tbl"
  have u: "upsert_statement now (mapDetailToParams B d) tbl = Inr ?tbl'"
    using e mem by (simp add: upsert_statement_def)
  have fr: "find_row ?tbl' k =
     (if k = get_prop d ''reffNumber'' then map_option (do_update now e) (find_row tbl k)
      else find_row tbl k)" for k
    by (rule find_row_map_update) simp
  show ?thesis
    using e(1) u fr f by simp
qed

lemma bound_columns_do_update:
  "excluded_row now (mapDetailToParams B d) = Inr e \<Longrightarrow>
     bound_columns (do_update now' e r) = reff_number r # tl (mapDetailToParams B d)
     \<and> updated_at (do_update now' e r) = now'"
  by (auto simp: mapDetailToParams_def bound_columns_def do_update_def)

text \<open>
  C6, as the code has it. A valid record is upserted while the table holds a row
  \<open>r\<close> with its reference number. Afterwards the row under that reference number
  has all twenty bound columns equal to the parameters built from the new record
  (last write wins), its \<^verbatim>\<open>created_at\<close> is that of \<open>r\<close>, and its \<^verbatim>\<open>updated_at\<close>
  is the clock value of the statement: it is later than before exactly when the
  clock has moved past the old \<^verbatim>\<open>updated_at\<close>. No row is added and the other rows
  are as they were.
\<close>

theorem upsert_existing_row_overwritten:
  assumes v: "valid_detail (Some d)"
      and f: "find_row db (get_prop d ''reffNumber'') = Some r"
  shows "\<exists>db' r'.
      upsertTransactions B clock db [Some d] = Inr (db', 1)
    \<and> persistDetails B clock db [Some d] = Inr (db', 1)
    \<and> find_row db' (get_prop d ''reffNumber'') = Some r'
    \<and> bound_columns r' = mapDetailToParams B d
    \<and> created_at r' = created_at r
    \<and> updated_at r' = clock 0
    \<and> (updated_at r < updated_at r') = (updated_at r < clock 0)
    \<and> length db' = length db
    \<and> (\<forall>k. k \<noteq> get_prop d ''reffNumber'' \<longrightarrow> find_row db' k = find_row db k)"
proof -
  have t: "truthy (get_prop d ''reffNumber'')"
    using valid_detail_truthy [OF v] by (simp add: reff_of_def)
  obtain tbl' e where s: "excluded_row (clock 0) (mapDetailToParams B d) = Inr e"
      "upsert_statement (clock 0) (mapDetailToParams B d) db = Inr tbl'"
      "find_row tbl' (get_prop d ''reffNumber'') = Some (do_update (clock 0) e r)"
      "length tbl' = length db"
      "\<forall>k. k \<noteq> get_prop d ''reffNumber'' \<longrightarrow> find_row tbl' k = find_row db k"
    using upsert_statement_existing [OF f, of "clock 0" B] by blast
  have run: "upsertTransactions B clock db [Some d] = Inr (tbl', 1)"
    using t s(2) by (simp add: upsertTransactions_def)
  have key: "reff_number r = get_prop d ''reffNumber''"
    using find_row_key [OF f] by simp
  have hd: "mapDetailToParams B d = get_prop d ''reffNumber'' # tl (mapDetailToParams B d)"
    by (simp add: mapDetailToParams_def)
  have cols: "bound_columns (do_update (clock 0) e r) = mapDetailToParams B d"
    using bound_columns_do_update [OF s(1), of "clock 0" r] key hd by simp
  have upd: "updated_at (do_update (clock 0) e r) = clock 0"
    using bound_columns_do_update [OF s(1), of "clock 0" r] by simp
  show ?thesis
    using run s(3,4,5) cols upd by (simp add: persistDetails_eq)
qed

theorem upsert_existing_row_overwritten_witness:
  "valid_detail (Some tx1_second)
   \<and> find_row [row_tx1] (get_prop tx1_second ''reffNumber'') = Some row_tx1
   \<and> map bound_columns (the_table
        (upsertTransactions plain_builtins (ticking_clock 9) [row_tx1] [Some tx1_second]))
       = [mapDetailToParams plain_builtins tx1_second]
   \<and> map created_at (the_table
        (upsertTransactions plain_builtins (ticking_clock 9) [row_tx1] [Some tx1_second])) = [7]
   \<and> map updated_at (the_table
        (upsertTransactions plain_builtins (ticking_clock 9) [row_tx1] [Some tx1_second])) = [9]"
proof -
  have v: "valid_detail (Some tx1_second)"
    by (simp add: example_defs)
  have f: "find_row [row_tx1] (get_prop tx1_second ''reffNumber'') = Some row_tx1"
    by (simp add: example_defs)
  from upsert_existing_row_overwritten [OF v f, of plain_builtins "ticking_clock 9"]
  obtain db' r' where
    r: "upsertTransactions plain_builtins (ticking_clock 9) [row_tx1] [Some tx1_second] = Inr (db', 1)"
       "find_row db' (get_prop tx1_second ''reffNumber'') = Some r'"
       "bound_columns r' = mapDetailToParams plain_builtins tx1_second"
       "created_at r' = created_at row_tx1" "updated_at r' = ticking_clock 9 0"
       "length db' = length [row_tx1]"
    by blast
  from r(6) obtain x where x: "db' = [x]"
    by (cases db') auto
  have "x = r'"
    using r(2) find_row_key [of db' "get_prop tx1_second ''reffNumber''" r'] x by simp
  then have "the_table (upsertTransactions plain_builtins (ticking_clock 9) [row_tx1] [Some tx1_second]) = [r']"
    using r(1) x by (simp add: the_table_def)
  then show ?thesis
    using v f r(3,4,5) by (simp add: row_tx1_def ticking_clock_def)
qed

text \<open>
  C6, as stated, asks for \<^verbatim>\<open>updated_at\<close> to advance on every such upsert. Two
  upserts of \<^verbatim>\<open>TX1\<close> that read the same value of \<^verbatim>\<open>CURRENT_TIMESTAMP\<close> leave
  \<^verbatim>\<open>updated_at\<close> where it was, although the second record's values are stored.
\<close>

theorem updated_at_not_advanced_counterexample:
  "upsertTransactions plain_builtins frozen_clock [] [Some tx1_first] = Inr ([row_tx1], 1)
   \<and> map_option customer_name (find_row (the_table
         (upsertTransactions plain_builtins frozen_clock [row_tx1] [Some tx1_second])) (JStr ''TX1''))
       = Some (JStr ''JANE DOE'')
   \<and> map_option updated_at (find_row (the_table
         (upsertTransactions plain_builtins frozen_clock [row_tx1] [Some tx1_second])) (JStr ''TX1''))
       = Some (updated_at row_tx1)"
  by (simp add: example_defs)

lemma upsert_statement_flag:
  assumes "upsert_statement now (mapDetailToParams B d) tbl = Inr tbl'"
  shows "\<forall>r\<in>set tbl'. r \<in> set tbl \<or> is_transfer_to_rek r = JNum 0 \<or> is_transfer_to_rek r = JNum 1"
proof -
  obtain e where e: "excluded_row now (mapDetailToParams B d) = Inr e"
    "is_transfer_to_rek e = (if truthy (get_prop d ''isTransferToRek'') then JNum 1 else JNum 0)"
    using excluded_row_params [of now B d] by auto
  have "is_transfer_to_rek (do_update now e s) = is_transfer_to_rek e" for s
    by (simp add: do_update_def)
  then show ?thesis
    using assms e by (auto simp: upsert_statement_def split: if_splits)
qed

lemma upsert_loop_flag:
  "upsert_loop B clock ds (db, n) = Inr (db', n') \<Longrightarrow>
   \<forall>r\<in>set db'. r \<in> set db \<or> is_transfer_to_rek r = JNum 0 \<or> is_transfer_to_rek r = JNum 1"
proof (induction B clock ds "(db, n)" arbitrary: db n rule: upsert_loop.induct)
  case (1 B clock db stored)
  then show ?case by simp
next
  case (2 B clock rest db stored)
  then show ?case by simp
next
  case (3 B clock detail rest db stored)
  show ?case
  proof (cases "truthy (get_prop detail ''reffNumber'')")
    case False
    with 3(1) 3(3) show ?thesis by simp
  next
    case True
    obtain tbl' where t: "upsert_statement (clock stored) (mapDetailToParams B detail) db = Inr tbl'"
      using upsert_statement_params by blast
    have "upsert_loop B clock rest (tbl', stored + 1) = Inr (db', n')"
      using 3(3) True t by simp
    from 3(2) [OF _ t this] True
    have a: "\<forall>r\<in>set db'. r \<in> set tbl' \<or> is_transfer_to_rek r = JNum 0 \<or> is_transfer_to_rek r = JNum 1"
      by simp
    show ?thesis
      using a upsert_statement_flag [OF t] by blast
  qed
qed

text \<open>
  C9. No upsert fails: in particular the \<^verbatim>\<open>NOT NULL\<close> constraint of
  \<^verbatim>\<open>is_transfer_to_rek\<close> is never violated. Every row of the resulting table that
  was not already there unchanged has 0 or 1 in that column. The third parameter,
  which the statement binds to the column, is never null; it is 0 when the
  record's \<^verbatim>\<open>isTransferToRek\<close> is absent, null or otherwise falsy, and 1 when it
  is truthy.
\<close>

theorem is_transfer_to_rek_never_null:
  "\<exists>db' n. upsertTransactions B clock db ds = Inr (db', n)
     \<and> persistDetails B clock db ds = Inr (db', n)
     \<and> (\<forall>r\<in>set db'. r \<in> set db \<or> is_transfer_to_rek r = JNum 0 \<or> is_transfer_to_rek r = JNum 1)
     \<and> (\<forall>detail. mapDetailToParams B detail ! 2 \<noteq> JNull
           \<and> mapDetailToColumns B detail ! 2 = mapDetailToParams B detail ! 2
           \<and> (\<not> truthy (get_prop detail ''isTransferToRek'')
                \<longrightarrow> mapDetailToParams B detail ! 2 = JNum 0)
           \<and> (truthy (get_prop detail ''isTransferToRek'')
                \<longrightarrow> mapDetailToParams B detail ! 2 = JNum 1))"
proof -
  obtain db' where r: "upsert_loop B clock ds (db, 0) = Inr (db', 0 + length (accepted ds))"
    using upsert_loop_keys [of B clock ds db 0] by blast
  have "\<forall>r\<in>set db'. r \<in> set db \<or> is_transfer_to_rek r = JNum 0 \<or> is_transfer_to_rek r = JNum 1"
    using upsert_loop_flag [OF r] .
  moreover have "mapDetailToParams B detail ! 2 \<noteq> JNull
           \<and> mapDetailToColumns B detail ! 2 = mapDetailToParams B detail ! 2
           \<and> (\<not> truthy (get_prop detail ''isTransferToRek'')
                \<longrightarrow> mapDetailToParams B detail ! 2 = JNum 0)
           \<and> (truthy (get_prop detail ''isTransferToRek'')
                \<longrightarrow> mapDetailToParams B detail ! 2 = JNum 1)" for detail
    by (simp add: mapDetailToColumns_eq) (simp add: mapDetailToParams_def)
  ultimately show ?thesis
    using r by (simp add: upsertTransactions_def persistDetails_eq)
qed

theorem is_transfer_to_rek_never_null_witness:
  "map is_transfer_to_rek (the_table
      (upsertTransactions plain_builtins frozen_clock [] [Some tx2, None, Some tx1_second, Some tx3]))
     = [JNum 0, JNum 1, JNum 0]
   \<and> mapDetailToParams plain_builtins tx2 ! 2 = JNum 0"
  using is_transfer_to_rek_never_null [of plain_builtins frozen_clock "[]"
      "[Some tx2, None, Some tx1_second, Some tx3]"]
  by (simp add: example_defs)

subsection \<open>Detail extraction\<close>

lemma finite_holders [simp]: "finite (holders h d)"
  by (simp add: holders_def)

lemma counted_visit:
  assumes c: "counted h (visited, details)" and a: "a < length h" "a \<notin> visited"
  shows "counted h (insert a visited, push_detail (detail_of (h ! a)) details)"
proof (cases "\<exists>d0. detail_of (h ! a) = JRef d0")
  case True
  then obtain d0 where d0: "detail_of (h ! a) = JRef d0" by blast
  have "count_list (details @ [JRef d0]) (JRef d) \<le> card (holders h d \<inter> insert a visited)" for d
  proof (cases "d = d0")
    case True
    have "a \<in> holders h d0" using a d0 by (simp add: holders_def)
    then have "holders h d0 \<inter> insert a visited = insert a (holders h d0 \<inter> visited)" by auto
    moreover have "a \<notin> holders h d0 \<inter> visited" using a by simp
    ultimately have "card (holders h d0 \<inter> insert a visited) = Suc (card (holders h d0 \<inter> visited))"
      by simp
    with c True show ?thesis by (simp add: counted_def)
  next
    case False
    have "count_list details (JRef d) \<le> card (holders h d \<inter> visited)"
      using c by (simp add: counted_def)
    also have "\<dots> \<le> card (holders h d \<inter> insert a visited)"
      by (intro card_mono) auto
    finally show ?thesis using False by simp
  qed
  with c d0 show ?thesis by (auto simp: counted_def)
next
  case False
  then have p: "push_detail (detail_of (h ! a)) details = details"
    by (cases "detail_of (h ! a)") auto
  have "card (holders h d \<inter> visited) \<le> card (holders h d \<inter> insert a visited)" for d
    by (intro card_mono) auto
  with c show ?thesis
    unfolding p counted_def by (auto intro: le_trans)
qed

lemma walk_counted:
  "counted h st \<Longrightarrow> counted h (walk h node st)"
  "counted h st \<Longrightarrow> counted h (walk_each h items st)"
proof (induction h node st and h items st rule: walk_walk_each.induct)
  case (1 h a visited details)
  show ?case
  proof (cases "a \<in> visited \<or> heap_lookup h a = None")
    case True
    with 1(2) show ?thesis by auto
  next
    case False
    then have a: "a \<notin> visited" "a < length h" "heap_lookup h a = Some (h ! a)"
      by (auto simp: heap_lookup_def split: if_splits)
    have "counted h (insert a visited, push_detail (detail_of (h ! a)) details)"
      using counted_visit [OF 1(2) a(2) a(1)] .
    from 1(1) [OF a(1) a(3) this] a show ?thesis by simp
  qed
qed auto

lemma count_detail_targets:
  "count_list (detail_targets h) d = card (holders h d)"
proof -
  have "count_list (detail_targets h) d = length (filter (\<lambda>obj. detail_of obj = JRef d) h)"
    by (induction h) (auto simp: detail_targets_def split: js_value.splits)
  then show ?thesis
    by (simp add: length_filter_conv_card holders_def)
qed

lemma collect_count:
  "count_list (collectDetailRecords h payload) (JRef d) \<le> count_list (detail_targets h) d"
proof -
  have "counted h ({}, [])" by (simp add: counted_def)
  from walk_counted(1) [OF this, of payload]
  have "count_list (collectDetailRecords h payload) (JRef d)
          \<le> card (holders h d \<inter> fst (walk h payload ({}, [])))"
    by (simp add: counted_def collectDetailRecords_def)
  also have "\<dots> \<le> card (holders h d)"
    by (intro card_mono) auto
  finally show ?thesis by (simp add: count_detail_targets)
qed

lemma collect_refs: "set (collectDetailRecords h payload) \<subseteq> range JRef"
proof -
  have "counted h ({}, [])" by (simp add: counted_def)
  from walk_counted(1) [OF this, of payload] show ?thesis
    by (simp add: counted_def collectDetailRecords_def)
qed

lemma count_le_one_distinct: "(\<And>x. count_list xs x \<le> 1) \<Longrightarrow> distinct xs"
proof (induction xs)
  case Nil
  then show ?case by simp
next
  case (Cons y ys)
  have "count_list ys x \<le> 1" for x
    using Cons.prems [of x] by (simp split: if_splits)
  then have "distinct ys" by (rule Cons.IH)
  moreover have "count_list ys y = 0"
    using Cons.prems [of y] by simp
  ultimately show ?case by (simp add: count_list_0_iff)
qed

lemma distinct_count_le_one: "distinct ys \<Longrightarrow> count_list ys d \<le> 1"
  by (induction ys) auto

lemma collect_distinct:
  assumes "distinct (detail_targets h)"
  shows "distinct (collectDetailRecords h payload)"
proof (rule count_le_one_distinct)
  fix x
  show "count_list (collectDetailRecords h payload) x \<le> 1"
  proof (cases "x \<in> range JRef")
    case True
    then obtain d where x: "x = JRef d" by blast
    have "count_list (detail_targets h) d \<le> 1"
      using assms by (rule distinct_count_le_one)
    with collect_count [of h payload d] x show ?thesis by simp
  next
    case False
    with collect_refs [of h payload] have "x \<notin> set (collectDetailRecords h payload)" by blast
    then show ?thesis by simp
  qed
qed

lemmas walk_example_defs =
  collectDetailRecords_def heap_lookup_def object_values_def detail_of_def get_prop_def
  detail_targets_def cyclic_heap_def ancestor_heap_def

text \<open>
  C3, as the code has it. On every object graph, cyclic or not, the walk
  terminates: the call is in the domain on which the recursion is well-founded.
  An object is returned at most once for each object of the graph that holds it
  under \<^verbatim>\<open>detail\<close>. So when no two objects hold the same one, as in any tree
  that \<^verbatim>\<open>JSON.parse\<close> builds, each detail object is returned at most once. The
  worker's extractor returns the same list.
\<close>

theorem collectDetailRecords_terminates_bounded:
  "walk_walk_each_dom (Inl (h, payload, ({}, [])))
   \<and> count_list (collectDetailRecords h payload) (JRef d) \<le> count_list (detail_targets h) d
   \<and> (distinct (detail_targets h) \<longrightarrow> distinct (collectDetailRecords h payload))
   \<and> extractTransactionDetails h payload = collectDetailRecords h payload"
  using walk_total collect_count collect_distinct
  by (simp add: extractTransactionDetails_def collectDetailRecords_def)

theorem collectDetailRecords_terminates_bounded_witness:
  "distinct (detail_targets cyclic_heap)
   \<and> collectDetailRecords cyclic_heap (JRef 0) = [JRef 3]
   \<and> distinct (collectDetailRecords cyclic_heap (JRef 0))"
proof -
  have d: "distinct (detail_targets cyclic_heap)"
    by (simp add: walk_example_defs)
  have "distinct (collectDetailRecords cyclic_heap (JRef 0))"
    using collectDetailRecords_terminates_bounded [of cyclic_heap "JRef 0" 3] d by blast
  moreover have "collectDetailRecords cyclic_heap (JRef 0) = [JRef 3]"
    by (simp add: walk_example_defs)
  ultimately show ?thesis using d by simp
qed

text \<open>
  C3, as stated, fails on a cyclic graph: the root holds itself under
  \<^verbatim>\<open>detail\<close>, and so does its child. The seen-set stops the second expansion of
  the root, not the second push of it.
\<close>

theorem collectDetailRecords_repeats_counterexample:
  "collectDetailRecords ancestor_heap (JRef 0) = [JRef 0, JRef 0]
   \<and> \<not> distinct (collectDetailRecords ancestor_heap (JRef 0))"
  by (simp add: walk_example_defs)

subsection \<open>Replay and the secret key\<close>

lemma fetchTransactionsFromPage_fail_fast:
  assumes "header_missing (whitelistedHeaders hs headerKeys) ''secret-key''"
  shows "fetchTransactionsFromPage net hs startDate endDate =
           (Inl (JsError None ''Captured headers did not include required secret fields.''), [])"
  using assms by (simp add: fetchTransactionsFromPage_def)

lemma fetchTransactions_always_sends:
  "snd (fetchTransactions net hs startDate endDate) =
     [transaction_request (filterHeaders hs) startDate endDate]"
  by (simp add: fetchTransactions_def Let_def split: option.splits prod.splits)

lemmas fetch_example_defs =
  filterHeaders_def whitelistedHeaders_def headerKeys_def allowed_headers_def
  header_missing_def headers_without_key_def headers_complete_def toLowerCase_def
  lower_char_def portal_status_def

text \<open>
  C4. In the one-shot script a header set whose filtered form lacks
  \<^verbatim>\<open>secret-key\<close> is refused before any request (lemma
  \<open>fetchTransactionsFromPage_fail_fast\<close>). The monitor's \<^verbatim>\<open>fetchTransactions\<close>
  has no such check: it sends its request whatever the headers are (lemma
  \<open>fetchTransactions_always_sends\<close>). For a captured header set without
  \<^verbatim>\<open>secret-key\<close>, the monitor sends the request and the one-shot script sends
  none.
\<close>

theorem fetchTransactions_no_secret_key_check:
  "header_missing (filterHeaders headers_without_key) ''secret-key''
   \<and> header_missing (whitelistedHeaders headers_without_key headerKeys) ''secret-key''
   \<and> snd (fetchTransactions (portal_status 200) headers_without_key ''20251126'' ''20251126'') =
       [transaction_request (filterHeaders headers_without_key) ''20251126'' ''20251126'']
   \<and> snd (fetchTransactionsFromPage (portal_status 200) headers_without_key ''20251126'' ''20251126'')
       = []"
proof -
  have 1: "header_missing (filterHeaders headers_without_key) ''secret-key''"
    by (simp add: fetch_example_defs)
  have 2: "header_missing (whitelistedHeaders headers_without_key headerKeys) ''secret-key''"
    by (simp add: fetch_example_defs)
  show ?thesis
    using 1 2 by (simp add: fetchTransactions_always_sends fetchTransactionsFromPage_fail_fast)
qed

subsection \<open>Login\<close>

lemmas login_defs =
  ensureLogin_def login_def waitForPostLoginSignals_def waitForPostLogin_def
  step_def tolerated_def and_then_def

text \<open>
  C8, as the code has it. When the credentials are there and the steps up to the
  click of the submit button come through, the login sequence of the monitor ends according to the
  document-ready wait alone: the navigation event, the refresh response and the
  post-login URL may all be missing. A document that does not become ready in
  time makes the wait throw, and that ends the sequence with the error. The
  one-shot script also needs the \<^verbatim>\<open>body\<close> element; the worker's settle phase
  tolerates everything it waits for.
\<close>

theorem post_login_waits_tolerated:
  assumes "username cfg \<noteq> []" "password cfg \<noteq> []"
    "goto_done w" "cta_done w" "form_seen w" "username_typed w" "password_typed w"
    "submit_clicked w"
  shows "ensureLogin cfg w True =
           (if document_ready_seen w then Inr () else Inl (WaitTimeout ''waitForFunction''))
     \<and> waitForPostLoginSignals w =
           (if document_ready_seen w then Inr () else Inl (WaitTimeout ''waitForFunction''))
     \<and> login cfg w =
           (if \<not> document_ready_seen w then Inl (WaitTimeout ''waitForFunction'')
            else if \<not> body_seen w then Inl (WaitTimeout ''waitForSelector'')
            else Inr ())
     \<and> waitForPostLogin w = Inr ()"
  using assms by (simp add: login_defs)

theorem post_login_waits_tolerated_witness:
  "ensureLogin default_login_config
     (smooth_world \<lparr> navigation_seen := False, refresh_seen := False,
                     post_login_url_seen := False \<rparr>) True = Inr ()"
  using post_login_waits_tolerated [where cfg = default_login_config and
     w = "smooth_world \<lparr> navigation_seen := False, refresh_seen := False,
                          post_login_url_seen := False \<rparr>"]
  by (simp add: smooth_world_def default_login_config_def)

text \<open>
  C8, as stated, counts the document-ready state among the tolerated signals.
  In a run where everything else comes through and only that wait times out,
  the login sequence fails.
\<close>

theorem document_ready_timeout_counterexample:
  "ensureLogin default_login_config (smooth_world \<lparr> document_ready_seen := False \<rparr>) True
     = Inl (WaitTimeout ''waitForFunction'')
   \<and> waitForPostLoginSignals (smooth_world \<lparr> document_ready_seen := False \<rparr>)
     = Inl (WaitTimeout ''waitForFunction'')
   \<and> login default_login_config (smooth_world \<lparr> document_ready_seen := False \<rparr>)
     = Inl (WaitTimeout ''waitForFunction'')"
  by (simp add: login_defs smooth_world_def default_login_config_def)

subsection \<open>Poll scheduler\<close>

lemma spaced_append:
  "spaced I prev (ts @ [t]) =
     (spaced I prev ts \<and> I - 1000 \<le> t - (if ts = [] then prev else last ts))"
  by (induction ts arbitrary: prev) auto

lemma poll_enter_Some:
  "poll_enter I now st = Some st1 \<Longrightarrow>
     \<not> polling st \<and> I - 1000 \<le> now - lastRun st
     \<and> st1 = st \<lparr> polling := True, lastRun := now \<rparr>"
  by (auto simp: poll_enter_def split: if_splits)

lemma poll_enter_None:
  "poll_enter I now st = None \<longleftrightarrow> polling st \<or> now - lastRun st < I - 1000"
  by (auto simp: poll_enter_def)

lemma sched_step_inv: "sched_inv I s \<Longrightarrow> sched_inv I (sched_step I s ev)"
proof (cases ev)
  case (Invoke now)
  assume inv: "sched_inv I s"
  show ?thesis
  proof (cases "poll_enter I now (poll_vars s)")
    case None
    with inv Invoke show ?thesis by simp
  next
    case (Some st1)
    note e = poll_enter_Some [OF Some]
    have "spaced I 0 (started s @ [now])"
      using inv e by (simp add: spaced_append sched_inv_def last_started_def)
    then show ?thesis
      using inv e Invoke Some by (simp add: sched_inv_def last_started_def)
  qed
next
  case Finish
  assume "sched_inv I s"
  then show ?thesis
    using Finish by (auto simp: sched_inv_def poll_leave_def)
qed

lemma sched_run_inv: "sched_inv I s \<Longrightarrow> sched_inv I (sched_run I s events)"
  unfolding sched_run_def
  by (induction events arbitrary: s) (simp_all add: sched_step_inv)

lemma poll_skipped:
  "polling st \<or> now - lastRun st < I - 1000 \<Longrightarrow> poll I w now st = (st, [])"
  by (auto simp: poll_def poll_enter_def)

lemma relogin_keeps:
  "lastRun (fst (relogin w st)) = lastRun st \<and> polling (fst (relogin w st)) = polling st"
  by (simp add: relogin_def split: sum.splits)

lemma on_failure_keeps: "lastRun (fst (on_failure w st e)) = lastRun st"
  by (simp add: on_failure_def case_prod_beta relogin_keeps)

lemma poll_body_keeps: "lastRun (fst (poll_body w st)) = lastRun st"
  by (simp add: poll_body_def case_prod_beta on_failure_keeps Let_def
      split: prod.splits sum.splits)

lemma poll_entered:
  assumes "\<not> polling st" "\<not> now - lastRun st < I - 1000"
  shows "lastRun (fst (poll I w now st)) = now \<and> \<not> polling (fst (poll I w now st))"
proof -
  have "poll_enter I now st = Some (st \<lparr> polling := True, lastRun := now \<rparr>)"
    using assms by (simp add: poll_enter_def)
  then show ?thesis
    using poll_body_keeps [of w "st \<lparr> polling := True, lastRun := now \<rparr>"]
    by (simp add: poll_def poll_leave_def case_prod_beta)
qed

text \<open>
  C7. A call of \<^verbatim>\<open>poll\<close> while a cycle is in flight, or less than the interval
  minus one second after the last run, changes nothing and does nothing: no
  header refresh, no request, no write. A call that is not skipped records its
  time as the last run, whatever the cycle does, so that any call less than
  the interval minus one second after it is skipped in turn. And whatever calls
  and completions follow the start of the monitor, in whatever order: the number
  of cycles in flight never exceeds one, \<^verbatim>\<open>lastRun\<close> is the time of the last
  call that entered, any two consecutive runs start at least the interval minus
  one second apart, and a call made while a cycle is in flight or inside that
  window after the last run leaves everything as it was.
\<close>

theorem poll_skips_and_never_overlaps:
  "(polling st \<or> now - lastRun st < pollIntervalMs - 1000
      \<longrightarrow> poll pollIntervalMs w now st = (st, []))
   \<and> (\<not> polling st \<and> \<not> now - lastRun st < pollIntervalMs - 1000
      \<longrightarrow> lastRun (fst (poll pollIntervalMs w now st)) = now
          \<and> (\<forall>w' now'. now' - now < pollIntervalMs - 1000
                \<longrightarrow> poll pollIntervalMs w' now' (fst (poll pollIntervalMs w now st))
                    = (fst (poll pollIntervalMs w now st), [])))
   \<and> in_flight (sched_run pollIntervalMs (initial_sched_state hs) events) \<le> 1
   \<and> lastRun (poll_vars (sched_run pollIntervalMs (initial_sched_state hs) events))
       = last_started (started (sched_run pollIntervalMs (initial_sched_state hs) events))
   \<and> spaced pollIntervalMs 0 (started (sched_run pollIntervalMs (initial_sched_state hs) events))
   \<and> (\<forall>now'. in_flight (sched_run pollIntervalMs (initial_sched_state hs) events) = 1
              \<or> now' - last_started (started (sched_run pollIntervalMs (initial_sched_state hs) events))
                   < pollIntervalMs - 1000
         \<longrightarrow> sched_step pollIntervalMs (sched_run pollIntervalMs (initial_sched_state hs) events)
               (Invoke now')
             = sched_run pollIntervalMs (initial_sched_state hs) events)"
proof -
  let ?s = "sched_run pollIntervalMs (initial_sched_state hs) events"
  have "sched_inv pollIntervalMs (initial_sched_state hs)"
    by (simp add: sched_inv_def initial_sched_state_def initial_poll_state_def last_started_def)
  then have inv: "sched_inv pollIntervalMs ?s"
    by (rule sched_run_inv)
  have c1: "polling st \<or> now - lastRun st < pollIntervalMs - 1000
      \<longrightarrow> poll pollIntervalMs w now st = (st, [])"
    by (simp add: poll_skipped)
  have c2: "\<not> polling st \<and> \<not> now - lastRun st < pollIntervalMs - 1000
      \<longrightarrow> lastRun (fst (poll pollIntervalMs w now st)) = now
          \<and> (\<forall>w' now'. now' - now < pollIntervalMs - 1000
                \<longrightarrow> poll pollIntervalMs w' now' (fst (poll pollIntervalMs w now st))
                    = (fst (poll pollIntervalMs w now st), []))"
  proof (intro impI, elim conjE)
    assume a: "\<not> polling st" "\<not> now - lastRun st < pollIntervalMs - 1000"
    note e = poll_entered [OF a, of w]
    have "poll pollIntervalMs w' now' (fst (poll pollIntervalMs w now st))
            = (fst (poll pollIntervalMs w now st), [])"
      if "now' - now < pollIntervalMs - 1000" for w' now'
      using that e by (intro poll_skipped) simp
    with e show "lastRun (fst (poll pollIntervalMs w now st)) = now
          \<and> (\<forall>w' now'. now' - now < pollIntervalMs - 1000
                \<longrightarrow> poll pollIntervalMs w' now' (fst (poll pollIntervalMs w now st))
                    = (fst (poll pollIntervalMs w now st), []))"
      by blast
  qed
  have c3: "in_flight ?s \<le> 1"
    and c4: "lastRun (poll_vars ?s) = last_started (started ?s)"
    and c5: "spaced pollIntervalMs 0 (started ?s)"
    using inv by (simp_all add: sched_inv_def)
  have c6: "\<forall>now'. in_flight ?s = 1 \<or> now' - last_started (started ?s) < pollIntervalMs - 1000
         \<longrightarrow> sched_step pollIntervalMs ?s (Invoke now') = ?s"
  proof (intro allI impI)
    fix now'
    assume "in_flight ?s = 1 \<or> now' - last_started (started ?s) < pollIntervalMs - 1000"
    then have "polling (poll_vars ?s) \<or> now' - lastRun (poll_vars ?s) < pollIntervalMs - 1000"
      using inv by (auto simp: sched_inv_def)
    then have "poll_enter pollIntervalMs now' (poll_vars ?s) = None"
      by (simp add: poll_enter_None)
    then show "sched_step pollIntervalMs ?s (Invoke now') = ?s"
      by simp
  qed
  show ?thesis
    by (intro conjI) (rule c1 c2 c3 c4 c5 c6)+
qed

theorem poll_skips_and_never_overlaps_witness:
  "poll 300000 (world_with_status 200) 1000
       ((initial_poll_state headers_complete) \<lparr> polling := True \<rparr>)
     = ((initial_poll_state headers_complete) \<lparr> polling := True \<rparr>, [])
   \<and> poll 300000 (world_with_status 200) 400000
       ((initial_poll_state headers_complete) \<lparr> lastRun := 200000 \<rparr>)
     = ((initial_poll_state headers_complete) \<lparr> lastRun := 200000 \<rparr>, [])
   \<and> lastRun (fst (poll 300000 (world_with_status 200) 1700000300000
         ((initial_poll_state headers_complete) \<lparr> lastRun := 1700000000000 \<rparr>)))
       = 1700000300000
   \<and> snd (poll 300000 (world_with_status 200) 1700000300005
         (fst (poll 300000 (world_with_status 200) 1700000300000
            ((initial_poll_state headers_complete) \<lparr> lastRun := 1700000000000 \<rparr>)))) = []
   \<and> started (sched_run 300000 (initial_sched_state headers_complete)
        [Invoke 1700000000000, Invoke 1700000000001, Finish, Invoke 1700000300000, Finish,
         Invoke 1700000300005, Invoke 1700000600000])
       = [1700000000000, 1700000300000, 1700000600000]
   \<and> in_flight (sched_run 300000 (initial_sched_state headers_complete)
        [Invoke 1700000000000, Invoke 1700000000001, Finish, Invoke 1700000300000, Finish,
         Invoke 1700000300005, Invoke 1700000600000]) = 1"
proof -
  let ?w = "world_with_status 200"
  let ?busy = "(initial_poll_state headers_complete) \<lparr> polling := True \<rparr>"
  let ?early = "(initial_poll_state headers_complete) \<lparr> lastRun := 200000 \<rparr>"
  let ?ran = "(initial_poll_state headers_complete) \<lparr> lastRun := 1700000000000 \<rparr>"
  have a: "poll 300000 ?w 1000 ?busy = (?busy, [])"
    using poll_skips_and_never_overlaps [where st = ?busy and now = 1000
        and pollIntervalMs = 300000 and w = ?w]
    by simp
  have b: "poll 300000 ?w 400000 ?early = (?early, [])"
    using poll_skips_and_never_overlaps [where st = ?early and now = 400000
        and pollIntervalMs = 300000 and w = ?w]
    by simp
  have idle: "\<not> polling ?ran \<and> \<not> 1700000300000 - lastRun ?ran < 300000 - 1000"
    by (simp add: initial_poll_state_def)
  have c: "lastRun (fst (poll 300000 ?w 1700000300000 ?ran)) = 1700000300000
     \<and> (\<forall>w' now'. now' - 1700000300000 < 300000 - 1000
           \<longrightarrow> poll 300000 w' now' (fst (poll 300000 ?w 1700000300000 ?ran))
               = (fst (poll 300000 ?w 1700000300000 ?ran), []))"
    using poll_skips_and_never_overlaps [where st = ?ran and now = 1700000300000
        and pollIntervalMs = 300000 and w = ?w] idle
    by blast
  then have d: "snd (poll 300000 ?w 1700000300005 (fst (poll 300000 ?w 1700000300000 ?ran))) = []"
    by simp
  have e: "sched_run 300000 (initial_sched_state headers_complete)
        [Invoke 1700000000000, Invoke 1700000000001, Finish, Invoke 1700000300000, Finish,
         Invoke 1700000300005, Invoke 1700000600000]
      = \<lparr> poll_vars = \<lparr> polling = True, lastRun = 1700000600000,
                         latestHeaders = headers_complete \<rparr>,
          in_flight = 1, started = [1700000000000, 1700000300000, 1700000600000] \<rparr>"
    by (simp add: sched_run_def poll_enter_def poll_leave_def initial_sched_state_def
        initial_poll_state_def)
  show ?thesis
    using a b c d by (simp add: e)
qed

lemma shouldRelogin_iff:
  "shouldRelogin (Some e) \<longleftrightarrow>
     error_status e = Some 401 \<or> error_status e = Some 403
     \<or> str_includes (toLowerCase (error_message e)) ''unauthorized''
     \<or> str_includes (toLowerCase (error_message e)) ''forbidden''
     \<or> str_includes (toLowerCase (error_message e)) ''login''"
  by (simp add: shouldRelogin_def Let_def)

lemma relogin_once: "count_list (snd (relogin w st)) ForcedLogin = 1"
  by (simp add: relogin_def split: sum.splits)

lemma relogin_polling: "polling (fst (relogin w st)) = polling st"
  by (simp add: relogin_def split: sum.splits)

lemma relogin_through:
  assumes "forced_login w = Inr ()" "open_transactions_page w = Inr ()"
  shows "\<exists>after. snd (relogin w st) = [ForcedLogin, OpenTransactionsPage, CaptureHeaders] @ after"
    and "relogin_capture w = Inr hs' \<Longrightarrow> latestHeaders (fst (relogin w st)) = hs'"
  using assms by (simp_all add: relogin_def split: sum.splits)

lemma refresh_no_login:
  "refreshHeadersIfNeeded w hs0 = (r, acts0) \<Longrightarrow>
     count_list acts0 ForcedLogin = 0 \<and> count_list acts0 (LogFailed e) = 0"
  by (auto simp: refreshHeadersIfNeeded_def split: if_splits)

lemma requests_no_login:
  "count_list (map SendRequest sent) ForcedLogin = 0
   \<and> count_list (map SendRequest sent) (LogFailed e) = 0"
  by (induction sent) simp_all

lemma fetchAndStore_fetch_failure:
  assumes "fetchTransactions (the_portal w) hs (formatDate (today w)) (formatDate (today w))
             = (Inl e, sent)"
  shows "fetchAndStore w hs = (Inl e, map SendRequest sent)"
  using assms by (simp add: fetchAndStore_def todayRange_def)

lemma poll_on_fetch_failure:
  assumes enter: "poll_enter pollIntervalMs now st = Some st1"
      and refresh: "refreshHeadersIfNeeded w (latestHeaders st1) = (Inr hs, acts0)"
      and fails: "fetchTransactions (the_portal w) hs (formatDate (today w)) (formatDate (today w))
                    = (Inl e, sent)"
  shows "poll pollIntervalMs w now st =
           (if shouldRelogin (Some e)
            then (poll_leave (fst (relogin w (st1 \<lparr> latestHeaders := hs \<rparr>))),
                  acts0 @ map SendRequest sent @ [LogFailed e, LogAttemptRelogin]
                    @ snd (relogin w (st1 \<lparr> latestHeaders := hs \<rparr>)))
            else (poll_leave (st1 \<lparr> latestHeaders := hs \<rparr>),
                  acts0 @ map SendRequest sent @ [LogFailed e]))"
  using enter refresh fetchAndStore_fetch_failure [OF fails]
  by (simp add: poll_def poll_body_def on_failure_def split: prod.splits)

lemma fetchTransactions_status:
  assumes "the_portal w (transaction_request (filterHeaders hs) s1 s2) = Inr response"
    "\<not> resp_ok response"
    "fetchTransactions (the_portal w) hs s1 s2 = (Inl e, sent)"
  shows "error_status e = Some (resp_status response)"
  using assms by (auto simp: fetchTransactions_def evaluate_fetch_def Let_def)

text \<open>
  C2. A cycle is entered, its headers are in place, and the replay fetch throws
  \<open>e\<close>. Then the cycle logs the failure once and makes exactly one forced login
  when \<open>e\<close> has status 401 or 403 or its message, in lower case, contains
  \<^verbatim>\<open>unauthorized\<close>, \<^verbatim>\<open>forbidden\<close> or \<^verbatim>\<open>login\<close>, and none otherwise. A portal
  that answers 401 gives such an error. When the forced login and the opening of
  the transaction page go through, the header capture follows them, and the
  headers it returns are the ones the next cycle uses. All of it happens inside
  the cycle: the flag is down only when it returns.
\<close>

theorem poll_relogin_on_auth_failure:
  assumes enter: "poll_enter pollIntervalMs now st = Some st1"
      and refresh: "refreshHeadersIfNeeded w (latestHeaders st1) = (Inr hs, acts0)"
      and fails: "fetchTransactions (the_portal w) hs (formatDate (today w)) (formatDate (today w))
                    = (Inl e, sent)"
  shows "count_list (snd (poll pollIntervalMs w now st)) ForcedLogin =
           (if error_status e = Some 401 \<or> error_status e = Some 403
               \<or> str_includes (toLowerCase (error_message e)) ''unauthorized''
               \<or> str_includes (toLowerCase (error_message e)) ''forbidden''
               \<or> str_includes (toLowerCase (error_message e)) ''login''
            then 1 else 0)
     \<and> count_list (snd (poll pollIntervalMs w now st)) (LogFailed e) = 1
     \<and> \<not> polling (fst (poll pollIntervalMs w now st))
     \<and> ((\<exists>response.
            the_portal w (transaction_request (filterHeaders hs) (formatDate (today w))
                            (formatDate (today w))) = Inr response
            \<and> \<not> resp_ok response \<and> resp_status response = 401)
          \<longrightarrow> count_list (snd (poll pollIntervalMs w now st)) ForcedLogin = 1)
     \<and> (shouldRelogin (Some e) \<and> forced_login w = Inr () \<and> open_transactions_page w = Inr ()
          \<longrightarrow> (\<exists>before after. snd (poll pollIntervalMs w now st) =
                  before @ [ForcedLogin, OpenTransactionsPage, CaptureHeaders] @ after)
              \<and> (\<forall>hs'. relogin_capture w = Inr hs'
                    \<longrightarrow> latestHeaders (fst (poll pollIntervalMs w now st)) = hs'))"
proof -
  let ?st = "st1 \<lparr> latestHeaders := hs \<rparr>"
  note p = poll_on_fetch_failure [OF enter refresh fails]
  note r1 = refresh_no_login [OF refresh, of e]
  note r2 = requests_no_login [of sent e]
  have c0: "count_list (snd (poll pollIntervalMs w now st)) ForcedLogin =
              (if shouldRelogin (Some e) then 1 else 0)"
    unfolding p using r1 r2 relogin_once [of w ?st] by simp
  have c1: "count_list (snd (poll pollIntervalMs w now st)) ForcedLogin =
           (if error_status e = Some 401 \<or> error_status e = Some 403
               \<or> str_includes (toLowerCase (error_message e)) ''unauthorized''
               \<or> str_includes (toLowerCase (error_message e)) ''forbidden''
               \<or> str_includes (toLowerCase (error_message e)) ''login''
            then 1 else 0)"
    using c0 unfolding shouldRelogin_iff .
  have lf: "count_list (snd (relogin w s)) (LogFailed e) = 0" for s
    by (simp add: relogin_def split: sum.splits)
  have c2: "count_list (snd (poll pollIntervalMs w now st)) (LogFailed e) = 1"
    unfolding p using r1 r2 lf [of ?st] by simp
  have c3: "\<not> polling (fst (poll pollIntervalMs w now st))"
    unfolding p by (simp add: poll_leave_def)
  have c4: "(\<exists>response.
            the_portal w (transaction_request (filterHeaders hs) (formatDate (today w))
                            (formatDate (today w))) = Inr response
            \<and> \<not> resp_ok response \<and> resp_status response = 401)
          \<longrightarrow> count_list (snd (poll pollIntervalMs w now st)) ForcedLogin = 1"
  proof
    assume "\<exists>response.
            the_portal w (transaction_request (filterHeaders hs) (formatDate (today w))
                            (formatDate (today w))) = Inr response
            \<and> \<not> resp_ok response \<and> resp_status response = 401"
    then obtain response where that:
      "the_portal w (transaction_request (filterHeaders hs) (formatDate (today w))
                            (formatDate (today w))) = Inr response"
      "\<not> resp_ok response" "resp_status response = 401"
      by blast
    have "error_status e = Some 401"
      using fetchTransactions_status [OF that(1,2) fails] that(3) by simp
    then have "shouldRelogin (Some e)"
      by (simp add: shouldRelogin_iff)
    with c0 show "count_list (snd (poll pollIntervalMs w now st)) ForcedLogin = 1"
      by simp
  qed
  have c5: "shouldRelogin (Some e) \<and> forced_login w = Inr () \<and> open_transactions_page w = Inr ()
          \<longrightarrow> (\<exists>before after. snd (poll pollIntervalMs w now st) =
                  before @ [ForcedLogin, OpenTransactionsPage, CaptureHeaders] @ after)
              \<and> (\<forall>hs'. relogin_capture w = Inr hs'
                    \<longrightarrow> latestHeaders (fst (poll pollIntervalMs w now st)) = hs')"
  proof (intro impI, elim conjE)
    assume s: "shouldRelogin (Some e)" and l: "forced_login w = Inr ()"
      and o: "open_transactions_page w = Inr ()"
    obtain after where a: "snd (relogin w ?st) =
        [ForcedLogin, OpenTransactionsPage, CaptureHeaders] @ after"
      using relogin_through(1) [OF l o] by blast
    have "snd (poll pollIntervalMs w now st) =
        (acts0 @ map SendRequest sent @ [LogFailed e, LogAttemptRelogin])
          @ [ForcedLogin, OpenTransactionsPage, CaptureHeaders] @ after"
      unfolding p using s a by simp
    then have "\<exists>before after. snd (poll pollIntervalMs w now st) =
                  before @ [ForcedLogin, OpenTransactionsPage, CaptureHeaders] @ after"
      by blast
    moreover have "latestHeaders (fst (poll pollIntervalMs w now st)) = hs'"
      if "relogin_capture w = Inr hs'" for hs'
      unfolding p using s relogin_through(2) [OF l o that, of ?st] by (simp add: poll_leave_def)
    ultimately show "(\<exists>before after. snd (poll pollIntervalMs w now st) =
                  before @ [ForcedLogin, OpenTransactionsPage, CaptureHeaders] @ after)
              \<and> (\<forall>hs'. relogin_capture w = Inr hs'
                    \<longrightarrow> latestHeaders (fst (poll pollIntervalMs w now st)) = hs')"
      by blast
  qed
  show ?thesis
    by (intro conjI) (rule c1 c2 c3 c4 c5)+
qed

lemmas poll_example_defs =
  world_with_status_def portal_status_def initial_poll_state_def headers_complete_def
  poll_enter_def refreshHeadersIfNeeded_def header_missing_def
  fetchTransactions_def evaluate_fetch_def filterHeaders_def allowed_headers_def
  toLowerCase_def lower_char_def formatDate_def padStart2_def digit_char_def dec.simps

theorem poll_relogin_on_auth_failure_witness:
  "count_list (snd (poll 300000 (world_with_status 401) 1700000000000
                     (initial_poll_state headers_complete))) ForcedLogin = 1
   \<and> count_list (snd (poll 300000 (world_with_status 500) 1700000000000
                     (initial_poll_state headers_complete))) ForcedLogin = 0"
proof -
  let ?st1 = "(initial_poll_state headers_complete) \<lparr> polling := True, lastRun := 1700000000000 \<rparr>"
  let ?req = "transaction_request headers_complete ''20251126'' ''20251126''"
  have enter: "poll_enter 300000 1700000000000 (initial_poll_state headers_complete) = Some ?st1"
    by (simp add: poll_enter_def initial_poll_state_def)
  have refresh: "refreshHeadersIfNeeded (world_with_status code) (latestHeaders ?st1)
                   = (Inr headers_complete, [])" for code
    by (simp add: poll_example_defs)
  have day: "formatDate (today (world_with_status code)) = ''20251126''" for code
    by (simp add: poll_example_defs)
  have f401: "fetchTransactions (the_portal (world_with_status 401)) headers_complete
                (formatDate (today (world_with_status 401)))
                (formatDate (today (world_with_status 401)))
              = (Inl (JsError (Some 401) ''Transaction fetch failed: HTTP 401 ''), [?req])"
    unfolding day by (simp add: poll_example_defs)
  have f500: "fetchTransactions (the_portal (world_with_status 500)) headers_complete
                (formatDate (today (world_with_status 500)))
                (formatDate (today (world_with_status 500)))
              = (Inl (JsError (Some 500) ''Transaction fetch failed: HTTP 500 ''), [?req])"
    unfolding day by (simp add: poll_example_defs)
  have "count_list (snd (poll 300000 (world_with_status 401) 1700000000000
                     (initial_poll_state headers_complete))) ForcedLogin = 1"
    using poll_relogin_on_auth_failure [OF enter refresh f401] by simp
  moreover have "count_list (snd (poll 300000 (world_with_status 500) 1700000000000
                     (initial_poll_state headers_complete))) ForcedLogin = 0"
    using poll_relogin_on_auth_failure [OF enter refresh f500]
    by (simp add: toLowerCase_def lower_char_def)
  ultimately show ?thesis by simp
qed

subsection \<open>Listing transactions\<close>

lemma list_limit_default: "list_limit None = Some 10 \<and> list_limit (Some []) = Some 10"
  by (simp add: list_limit_def param_or_def parseInt_def math_min_def is_white_def
      is_radix_digit_def digit_value_def digits_value_def)

lemma list_limit_le: "list_limit p = Some n \<Longrightarrow> n \<le> 100"
  by (auto simp: list_limit_def math_min_def split: option.splits)

lemma list_limit_min: "list_limit p = math_min (parseInt (param_or p ''10'')) 100"
  by (simp add: list_limit_def)

lemma handleListTransactions_bounded:
  assumes "handleListTransactions p q rows = Inr out" "list_limit p = Some n" "0 \<le> n"
  shows "length out \<le> 100"
proof -
  have "n \<le> 100" using assms(2) by (rule list_limit_le)
  then show ?thesis
    using assms by (auto simp: handleListTransactions_def sqlite_limit_offset_def
        split: option.splits)
qed

text \<open>
  C10. The limit is the smaller of the requested number and 100, and 10 when
  none is given (lemmas \<open>list_limit_min\<close>, \<open>list_limit_default\<close>,
  \<open>list_limit_le\<close>); a limit that is not negative bounds the response by 100
  rows (lemma \<open>handleListTransactions_bounded\<close>). A negative number passes the
  cap unchanged: \<^verbatim>\<open>limit=-1\<close> reaches the query as \<^verbatim>\<open>LIMIT -1\<close>, and all 101
  matching rows come back.
\<close>

theorem negative_limit_unbounded:
  "list_limit (Some ''-1'') = Some (- 1)
   \<and> handleListTransactions (Some ''-1'') None [0 ..< 101] = Inr [0 ..< 101]
   \<and> length [0 ..< (101::nat)] = 101"
  by (simp add: handleListTransactions_def list_limit_def list_offset_def param_or_def
      parseInt_def math_min_def is_white_def is_radix_digit_def digit_value_def digits_value_def
      sqlite_limit_offset_def)

end
